theory Spec2Isabelle
  imports Complex_Main "HOL-Library.Word" "HOL-Library.Log_Nat"
begin

section \<open>Fixed-point decimals of \<^verbatim>\<open>decimal.go\<close>\<close>

text \<open>
  A \<^verbatim>\<open>Decimal\<close> is a \<^verbatim>\<open>*big.Int\<close> coefficient and an \<^verbatim>\<open>int32\<close> exponent. This first
  part of the development gives the value-level embedding: a \<^verbatim>\<open>big.Int\<close> is an \<open>int\<close>,
  an \<^verbatim>\<open>int32\<close> is a \<open>32 word\<close> read with \<open>sint\<close>, an \<^verbatim>\<open>int64\<close> a \<open>64 word\<close>. The field names
  \<^verbatim>\<open>value\<close> and \<^verbatim>\<open>exp\<close> carry the suffix \<open>_d\<close>, since both names are taken in HOL.
  The pointer structure of the Go code (who owns which \<^verbatim>\<open>big.Int\<close>) is the subject of
  the store-level embedding further down.
\<close>

type_synonym int32 = "32 word"
type_synonym int64 = "64 word"

record Decimal =
  value_d :: int
  exp_d :: int32

datatype error = Panic string

subsection \<open>The operations of \<^verbatim>\<open>math/big\<close> and \<^verbatim>\<open>math\<close> that the file calls\<close>

definition zeroInt :: int where "zeroInt = 0"
definition oneInt :: int where "oneInt = 1"
definition fiveInt :: int where "fiveInt = 5"
definition tenInt :: int where "tenInt = 10"

text \<open>\<^verbatim>\<open>(*big.Int).Sign\<close>: -1, 0 or +1.\<close>

definition big_Sign :: "int \<Rightarrow> int" where
  "big_Sign x = (if x < 0 then - 1 else if x = 0 then 0 else 1)"

text \<open>\<^verbatim>\<open>(*big.Int).Cmp\<close>: -1 if \<open>x < y\<close>, 0 if \<open>x = y\<close>, +1 if \<open>x > y\<close>.\<close>

definition big_Cmp :: "int \<Rightarrow> int \<Rightarrow> int" where
  "big_Cmp x y = (if x < y then - 1 else if x = y then 0 else 1)"

text \<open>\<^verbatim>\<open>(*big.Int).Bit(0)\<close>: the lowest bit of the two's-complement reading.\<close>

definition big_Bit0 :: "int \<Rightarrow> nat" where
  "big_Bit0 x = (if odd x then 1 else 0)"

text \<open>
  \<^verbatim>\<open>(*big.Int).Exp(x, y, nil)\<close>: \<open>x ** y\<close>, and 1 when \<open>y \<le> 0\<close>.
\<close>

definition big_Exp :: "int \<Rightarrow> int \<Rightarrow> int" where
  "big_Exp x y = (if y \<le> 0 then 1 else x ^ nat y)"

text \<open>
  \<^verbatim>\<open>(*big.Int).Quo\<close>: division truncated towards zero. Go panics on a zero divisor;
  \<^verbatim>\<open>rescale\<close> only divides by a power of ten (lemma \<open>big_Exp_ten_pos\<close> below).
\<close>

definition big_Quo :: "int \<Rightarrow> int \<Rightarrow> int" where
  "big_Quo x y = sgn x * sgn y * (\<bar>x\<bar> div \<bar>y\<bar>)"

text \<open>
  \<^verbatim>\<open>(*big.Int).DivMod\<close>: Euclidean division, the modulus \<open>m\<close> with \<open>0 \<le> m < \<bar>y\<bar>\<close> and
  the quotient \<open>q\<close> with \<open>x = y * q + m\<close>. \<^verbatim>\<open>Round\<close> only divides by ten.
\<close>

definition big_DivMod :: "int \<Rightarrow> int \<Rightarrow> int \<times> int" where
  "big_DivMod x y = (let m = x mod \<bar>y\<bar> in ((x - m) div y, m))"

text \<open>
  \<^verbatim>\<open>float64\<close>, as far as \<^verbatim>\<open>rescale\<close> uses it. Every value that occurs is an integer, so a
  float is modelled by the integer it represents, and \<open>float64_round\<close> is IEEE 754
  round-to-nearest-even onto a 53-bit significand: \<open>k\<close> is the number of low bits that
  do not fit. (Magnitudes of \<open>2 ^ 1024\<close> and more, which overflow to infinity, are far
  from anything two \<^verbatim>\<open>int32\<close> produce.)
\<close>

definition float64_round :: "int \<Rightarrow> int" where
  "float64_round n =
     (let a = \<bar>n\<bar>;
          k = floorlog 2 (nat a) - 53;
          q = a div 2 ^ k;
          r = a mod 2 ^ k;
          q' = (if 2 * r > 2 ^ k \<or> (2 * r = 2 ^ k \<and> odd q) then q + 1 else q)
      in sgn n * (q' * 2 ^ k))"

text \<open>The conversion \<^verbatim>\<open>float64(x)\<close> of an \<^verbatim>\<open>int32\<close>.\<close>

definition float64_of_int32 :: "int32 \<Rightarrow> int" where
  "float64_of_int32 x = float64_round (sint x)"

text \<open>Subtraction of two floats: the exact difference, rounded.\<close>

definition float64_sub :: "int \<Rightarrow> int \<Rightarrow> int" where
  "float64_sub x y = float64_round (x - y)"

text \<open>\<^verbatim>\<open>math.Abs\<close> is exact.\<close>

definition math_Abs :: "int \<Rightarrow> int" where
  "math_Abs x = \<bar>x\<bar>"

text \<open>
  The conversion \<^verbatim>\<open>int64(f)\<close> of an integer-valued float. It is exact when the value
  fits 64 bits, which \<open>rescale_diff_range\<close> below shows for every call of the file.
\<close>

definition int64_of_float64 :: "int \<Rightarrow> int64" where
  "int64_of_float64 f = word_of_int f"

text \<open>\<^verbatim>\<open>big.NewInt\<close> of an \<^verbatim>\<open>int64\<close>.\<close>

definition big_NewInt :: "int64 \<Rightarrow> int" where
  "big_NewInt x = sint x"

text \<open>
  \<^verbatim>\<open>(*big.Int).String\<close>: the decimal digits, most significant first, after a minus sign
  for a negative number.
\<close>

fun digits10 :: "nat \<Rightarrow> string" where
  "digits10 n =
     (if n < 10 then [''0123456789'' ! n]
      else digits10 (n div 10) @ [''0123456789'' ! (n mod 10)])"

declare digits10.simps [simp del]

definition big_String :: "int \<Rightarrow> string" where
  "big_String x = (if x < 0 then CHR ''-'' # digits10 (nat (- x)) else digits10 (nat x))"

subsection \<open>The functions of \<^verbatim>\<open>decimal.go\<close>\<close>

definition New :: "int64 \<Rightarrow> int32 \<Rightarrow> Decimal" where
  "New v e = \<lparr>value_d = big_NewInt v, exp_d = e\<rparr>"

definition min_i32 :: "int32 \<Rightarrow> int32 \<Rightarrow> int32" where
  "min_i32 x y = (if sint x \<ge> sint y then y else x)"

text \<open>The first two lines of \<^verbatim>\<open>rescale\<close>: the exponent difference, through \<^verbatim>\<open>float64\<close>.\<close>

definition rescale_diff :: "int32 \<Rightarrow> int32 \<Rightarrow> int" where
  "rescale_diff e' e = math_Abs (float64_sub (float64_of_int32 e') (float64_of_int32 e))"

definition rescale :: "Decimal \<Rightarrow> int32 \<Rightarrow> Decimal" where
  "rescale d e' =
     (let diff = rescale_diff e' (exp_d d);
          v = value_d d;
          expScale = big_Exp tenInt (big_NewInt (int64_of_float64 diff));
          v = (if sint e' > sint (exp_d d) then big_Quo v expScale
               else if sint e' < sint (exp_d d) then v * expScale
               else v)
      in \<lparr>value_d = v, exp_d = e'\<rparr>)"

definition Add :: "Decimal \<Rightarrow> Decimal \<Rightarrow> Decimal" where
  "Add d d2 =
     (let baseScale = min_i32 (exp_d d) (exp_d d2);
          rd = rescale d baseScale;
          rd2 = rescale d2 baseScale;
          d3Value = value_d rd + value_d rd2
      in \<lparr>value_d = d3Value, exp_d = baseScale\<rparr>)"

definition Sub :: "Decimal \<Rightarrow> Decimal \<Rightarrow> Decimal" where
  "Sub d d2 =
     (let baseScale = min_i32 (exp_d d) (exp_d d2);
          rd = rescale d baseScale;
          rd2 = rescale d2 baseScale;
          d3Value = value_d rd - value_d rd2
      in \<lparr>value_d = d3Value, exp_d = baseScale\<rparr>)"

text \<open>
  \<^verbatim>\<open>Mul\<close> adds the exponents as \<^verbatim>\<open>int64\<close> (\<open>scast\<close> is the sign-extending conversion)
  and panics when the sum leaves the \<^verbatim>\<open>int32\<close> range; \<open>math.MaxInt32\<close> and
  \<open>math.MinInt32\<close> are written out, and the message is that of \<^verbatim>\<open>fmt.Sprintf\<close>, whose
  \<^verbatim>\<open>%v\<close> prints the \<^verbatim>\<open>int64\<close> in decimal, as \<open>big_String\<close> does.
\<close>

definition Mul :: "Decimal \<Rightarrow> Decimal \<Rightarrow> error + Decimal" where
  "Mul d d2 =
     (let expInt64 = (scast (exp_d d) :: int64) + scast (exp_d d2)
      in if sint expInt64 > 2147483647 \<or> sint expInt64 < - 2147483648
         then Inl (Panic (''exponent '' @ big_String (sint expInt64) @ '' overflows an int32!''))
         else Inr \<lparr>value_d = value_d d * value_d d2, exp_d = (scast expInt64 :: int32)\<rparr>)"

definition Abs :: "Decimal \<Rightarrow> Decimal" where
  "Abs d = \<lparr>value_d = \<bar>value_d d\<bar>, exp_d = exp_d d\<rparr>"

definition Cmp :: "Decimal \<Rightarrow> Decimal \<Rightarrow> int" where
  "Cmp d d2 =
     (if exp_d d = exp_d d2 then big_Cmp (value_d d) (value_d d2)
      else let baseExp = min_i32 (exp_d d) (exp_d d2);
               rd = rescale d baseExp;
               rd2 = rescale d2 baseExp
           in big_Cmp (value_d rd) (value_d rd2))"

text \<open>
  \<^verbatim>\<open>Round\<close> works in place on the fresh value \<^verbatim>\<open>ret\<close> that \<^verbatim>\<open>rescale\<close> returned; each
  assignment is one \<open>let\<close>. \<open>- places - 1\<close> and \<open>ret.exp++\<close> are \<^verbatim>\<open>int32\<close> arithmetic
  and wrap.
\<close>

definition Round :: "Decimal \<Rightarrow> int32 \<Rightarrow> Decimal" where
  "Round d places =
     (let ret = rescale d (- places - 1);
          ret = (if big_Sign (value_d ret) < 0
                 then ret\<lparr>value_d := value_d ret - fiveInt\<rparr>
                 else ret\<lparr>value_d := value_d ret + fiveInt\<rparr>);
          (q, m) = big_DivMod (value_d ret) tenInt;
          ret = ret\<lparr>value_d := q\<rparr>;
          ret = ret\<lparr>exp_d := exp_d ret + 1\<rparr>;
          ret = (if big_Sign (value_d ret) < 0 \<and> big_Cmp m zeroInt \<noteq> 0
                 then ret\<lparr>value_d := value_d ret + oneInt\<rparr>
                 else ret)
      in ret)"

definition RoundBank :: "Decimal \<Rightarrow> int32 \<Rightarrow> Decimal" where
  "RoundBank d places =
     (let round = Round d places;
          remainder = Abs (Sub d round);
          half = New 5 (- places - 1)
      in if Cmp remainder half = 0 \<and> big_Bit0 (value_d round) \<noteq> 0
         then (if big_Sign (value_d round) < 0
               then round\<lparr>value_d := value_d round + oneInt\<rparr>
               else round\<lparr>value_d := value_d round - oneInt\<rparr>)
         else round)"

text \<open>
  The trimming loop of \<^verbatim>\<open>string\<close>: \<open>trim_loop s n\<close> runs the index down from \<open>n - 1\<close>
  and returns \<open>i + 1\<close> for the index \<open>i\<close> at which the loop stops (\<open>-1\<close> when every
  character is a zero).
\<close>

fun trim_loop :: "string \<Rightarrow> nat \<Rightarrow> nat" where
  "trim_loop s 0 = 0"
| "trim_loop s (Suc i) = (if s ! i \<noteq> CHR ''0'' then Suc i else trim_loop s i)"

text \<open>
  \<^verbatim>\<open>string\<close> (named \<open>string_dec\<close> here, \<open>string\<close> being the type). \<^verbatim>\<open>int(d.exp)\<close> is
  taken on a 64-bit platform, where it is exact, as the comment in the source says.
\<close>

definition string_dec :: "Decimal \<Rightarrow> bool \<Rightarrow> string" where
  "string_dec d trimTrailingZeros =
     (if 0 \<le> sint (exp_d d) then big_String (value_d (rescale d 0))
      else
        let abs = \<bar>value_d d\<bar>;
            str = big_String abs;
            dExpInt = sint (exp_d d);
            (intPart, fractionalPart) =
              (if int (length str) > - dExpInt
               then (take (nat (int (length str) + dExpInt)) str,
                     drop (nat (int (length str) + dExpInt)) str)
               else (''0'', replicate (nat (- dExpInt - int (length str))) CHR ''0'' @ str));
            fractionalPart =
              (if trimTrailingZeros
               then take (trim_loop fractionalPart (length fractionalPart)) fractionalPart
               else fractionalPart);
            number = (if length fractionalPart > 0 then intPart @ ''.'' @ fractionalPart else intPart)
        in if big_Sign (value_d d) < 0 then ''-'' @ number else number)"

definition StringFixedBank :: "Decimal \<Rightarrow> int32 \<Rightarrow> string" where
  "StringFixedBank d places = (let rounded = RoundBank d places in string_dec rounded False)"

section \<open>Store-level embedding\<close>

text \<open>
  The Go code works on pointers: a \<^verbatim>\<open>*Decimal\<close> points to a struct whose \<^verbatim>\<open>value\<close> field
  points to a \<^verbatim>\<open>big.Int\<close>, and methods such as \<^verbatim>\<open>z.Add(x, y)\<close> overwrite the \<^verbatim>\<open>big.Int\<close>
  that \<open>z\<close> points to. This second embedding keeps that structure, so that aliasing can
  be stated: a store holds the \<^verbatim>\<open>big.Int\<close> objects and the \<^verbatim>\<open>Decimal\<close> structs, an address
  is an index into it, allocation appends, and every function takes the store and
  returns it. The lemmas \<open>rescale_h_refines\<close> to \<open>StringFixedBank_h_refines\<close> below show
  that each function computes what its value-level counterpart above computes.
\<close>

type_synonym addr = nat

record Decimal_obj =
  value_p :: addr
  exp_f :: int32

record heap =
  ints :: "int list"
  decs :: "Decimal_obj list"

text \<open>
  \<^verbatim>\<open>new(big.Int)\<close> and \<^verbatim>\<open>big.NewInt\<close> (\<open>alloc_Int\<close>), reading a \<^verbatim>\<open>big.Int\<close> (\<open>Int_val\<close>), the
  assignment to the receiver \<open>z\<close> that every \<^verbatim>\<open>z.Op(x, y)\<close> of \<^verbatim>\<open>math/big\<close> ends with
  (\<open>Int_set\<close>), \<^verbatim>\<open>&Decimal{...}\<close> (\<open>alloc_Decimal\<close>), and the fields of a \<^verbatim>\<open>*Decimal\<close>.
\<close>

definition alloc_Int :: "int \<Rightarrow> heap \<Rightarrow> addr \<times> heap" where
  "alloc_Int v h = (length (ints h), h\<lparr>ints := ints h @ [v]\<rparr>)"

definition Int_val :: "heap \<Rightarrow> addr \<Rightarrow> int" where
  "Int_val h p = ints h ! p"

definition Int_set :: "addr \<Rightarrow> int \<Rightarrow> heap \<Rightarrow> heap" where
  "Int_set z v h = h\<lparr>ints := (ints h)[z := v]\<rparr>"

definition alloc_Decimal :: "Decimal_obj \<Rightarrow> heap \<Rightarrow> addr \<times> heap" where
  "alloc_Decimal obj h = (length (decs h), h\<lparr>decs := decs h @ [obj]\<rparr>)"

definition value_of :: "heap \<Rightarrow> addr \<Rightarrow> addr" where
  "value_of h d = value_p (decs h ! d)"

definition exp_of :: "heap \<Rightarrow> addr \<Rightarrow> int32" where
  "exp_of h d = exp_f (decs h ! d)"

definition exp_set :: "addr \<Rightarrow> int32 \<Rightarrow> heap \<Rightarrow> heap" where
  "exp_set d e h = h\<lparr>decs := (decs h)[d := (decs h ! d)\<lparr>exp_f := e\<rparr>]\<rparr>"

text \<open>
  The package variables \<^verbatim>\<open>zeroInt\<close>, \<^verbatim>\<open>oneInt\<close>, \<^verbatim>\<open>fiveInt\<close> and \<^verbatim>\<open>tenInt\<close> are the first four
  \<^verbatim>\<open>big.Int\<close> objects of the store.
\<close>

definition zeroInt_p :: addr where "zeroInt_p = 0"
definition oneInt_p :: addr where "oneInt_p = 1"
definition fiveInt_p :: addr where "fiveInt_p = 2"
definition tenInt_p :: addr where "tenInt_p = 3"

definition init_heap :: heap where
  "init_heap = \<lparr>ints = [0, 1, 5, 10], decs = []\<rparr>"

definition New_h :: "int64 \<Rightarrow> int32 \<Rightarrow> heap \<Rightarrow> addr \<times> heap" where
  "New_h v e h =
     (let (value, h) = alloc_Int (big_NewInt v) h
      in alloc_Decimal \<lparr>value_p = value, exp_f = e\<rparr> h)"

text \<open>
  \<^verbatim>\<open>rescale\<close>: \<open>value\<close> is a fresh \<^verbatim>\<open>big.Int\<close> set to the operand's coefficient, \<open>expScale\<close>
  a fresh \<^verbatim>\<open>big.Int\<close> that \<^verbatim>\<open>Exp\<close> writes, \<open>y\<close> is \<^verbatim>\<open>big.NewInt(int64(diff))\<close>, and \<^verbatim>\<open>Quo\<close> and
  \<^verbatim>\<open>Mul\<close> write into \<open>value\<close>.
\<close>

definition rescale_h :: "addr \<Rightarrow> int32 \<Rightarrow> heap \<Rightarrow> addr \<times> heap" where
  "rescale_h d e' h =
     (let diff = rescale_diff e' (exp_of h d);
          (value, h) = alloc_Int 0 h;
          h = Int_set value (Int_val h (value_of h d)) h;
          (expScale, h) = alloc_Int 0 h;
          (y, h) = alloc_Int (big_NewInt (int64_of_float64 diff)) h;
          h = Int_set expScale (big_Exp (Int_val h tenInt_p) (Int_val h y)) h;
          h = (if sint e' > sint (exp_of h d)
               then Int_set value (big_Quo (Int_val h value) (Int_val h expScale)) h
               else if sint e' < sint (exp_of h d)
               then Int_set value (Int_val h value * Int_val h expScale) h
               else h)
      in alloc_Decimal \<lparr>value_p = value, exp_f = e'\<rparr> h)"

definition Add_h :: "addr \<Rightarrow> addr \<Rightarrow> heap \<Rightarrow> addr \<times> heap" where
  "Add_h d d2 h =
     (let baseScale = min_i32 (exp_of h d) (exp_of h d2);
          (rd, h) = rescale_h d baseScale h;
          (rd2, h) = rescale_h d2 baseScale h;
          (d3Value, h) = alloc_Int 0 h;
          h = Int_set d3Value (Int_val h (value_of h rd) + Int_val h (value_of h rd2)) h
      in alloc_Decimal \<lparr>value_p = d3Value, exp_f = baseScale\<rparr> h)"

definition Sub_h :: "addr \<Rightarrow> addr \<Rightarrow> heap \<Rightarrow> addr \<times> heap" where
  "Sub_h d d2 h =
     (let baseScale = min_i32 (exp_of h d) (exp_of h d2);
          (rd, h) = rescale_h d baseScale h;
          (rd2, h) = rescale_h d2 baseScale h;
          (d3Value, h) = alloc_Int 0 h;
          h = Int_set d3Value (Int_val h (value_of h rd) - Int_val h (value_of h rd2)) h
      in alloc_Decimal \<lparr>value_p = d3Value, exp_f = baseScale\<rparr> h)"

definition Mul_h :: "addr \<Rightarrow> addr \<Rightarrow> heap \<Rightarrow> error + addr \<times> heap" where
  "Mul_h d d2 h =
     (let expInt64 = (scast (exp_of h d) :: int64) + scast (exp_of h d2)
      in if sint expInt64 > 2147483647 \<or> sint expInt64 < - 2147483648
         then Inl (Panic (''exponent '' @ big_String (sint expInt64) @ '' overflows an int32!''))
         else
           let (d3Value, h) = alloc_Int 0 h;
               h = Int_set d3Value (Int_val h (value_of h d) * Int_val h (value_of h d2)) h
           in Inr (alloc_Decimal \<lparr>value_p = d3Value, exp_f = (scast expInt64 :: int32)\<rparr> h))"

definition Abs_h :: "addr \<Rightarrow> heap \<Rightarrow> addr \<times> heap" where
  "Abs_h d h =
     (let (d2Value, h) = alloc_Int 0 h;
          h = Int_set d2Value \<bar>Int_val h (value_of h d)\<bar> h
      in alloc_Decimal \<lparr>value_p = d2Value, exp_f = exp_of h d\<rparr> h)"

definition Cmp_h :: "addr \<Rightarrow> addr \<Rightarrow> heap \<Rightarrow> int \<times> heap" where
  "Cmp_h d d2 h =
     (if exp_of h d = exp_of h d2
      then (big_Cmp (Int_val h (value_of h d)) (Int_val h (value_of h d2)), h)
      else
        let baseExp = min_i32 (exp_of h d) (exp_of h d2);
            (rd, h) = rescale_h d baseExp h;
            (rd2, h) = rescale_h d2 baseExp h
        in (big_Cmp (Int_val h (value_of h rd)) (Int_val h (value_of h rd2)), h))"

text \<open>
  \<^verbatim>\<open>Round\<close> and \<^verbatim>\<open>RoundBank\<close> overwrite the coefficient and the exponent of the Decimal that
  \<^verbatim>\<open>rescale\<close> (or \<^verbatim>\<open>Round\<close>) returned, through its pointers. \<^verbatim>\<open>DivMod\<close> assigns the quotient
  to its receiver and the modulus to \<open>m\<close>.
\<close>

definition Round_h :: "addr \<Rightarrow> int32 \<Rightarrow> heap \<Rightarrow> addr \<times> heap" where
  "Round_h d places h =
     (let (ret, h) = rescale_h d (- places - 1) h;
          h = (if big_Sign (Int_val h (value_of h ret)) < 0
               then Int_set (value_of h ret) (Int_val h (value_of h ret) - Int_val h fiveInt_p) h
               else Int_set (value_of h ret) (Int_val h (value_of h ret) + Int_val h fiveInt_p) h);
          (m, h) = alloc_Int 0 h;
          (q, r) = big_DivMod (Int_val h (value_of h ret)) (Int_val h tenInt_p);
          h = Int_set m r (Int_set (value_of h ret) q h);
          h = exp_set ret (exp_of h ret + 1) h;
          h = (if big_Sign (Int_val h (value_of h ret)) < 0 \<and> big_Cmp (Int_val h m) (Int_val h zeroInt_p) \<noteq> 0
               then Int_set (value_of h ret) (Int_val h (value_of h ret) + Int_val h oneInt_p) h
               else h)
      in (ret, h))"

definition RoundBank_h :: "addr \<Rightarrow> int32 \<Rightarrow> heap \<Rightarrow> addr \<times> heap" where
  "RoundBank_h d places h =
     (let (round, h) = Round_h d places h;
          (diff, h) = Sub_h d round h;
          (remainder, h) = Abs_h diff h;
          (half, h) = New_h 5 (- places - 1) h;
          (c, h) = Cmp_h remainder half h;
          h = (if c = 0 \<and> big_Bit0 (Int_val h (value_of h round)) \<noteq> 0
               then (if big_Sign (Int_val h (value_of h round)) < 0
                     then Int_set (value_of h round) (Int_val h (value_of h round) + Int_val h oneInt_p) h
                     else Int_set (value_of h round) (Int_val h (value_of h round) - Int_val h oneInt_p) h)
               else h)
      in (round, h))"

text \<open>
  \<^verbatim>\<open>string\<close> has a value receiver: the struct is copied (into a new cell \<open>d\<close>), and the
  copy's \<^verbatim>\<open>value\<close> field still points to the caller's \<^verbatim>\<open>big.Int\<close>.
\<close>

definition string_h :: "Decimal_obj \<Rightarrow> bool \<Rightarrow> heap \<Rightarrow> string \<times> heap" where
  "string_h obj trimTrailingZeros h =
     (let (d, h) = alloc_Decimal obj h
      in if 0 \<le> sint (exp_of h d)
         then (let (r, h) = rescale_h d 0 h in (big_String (Int_val h (value_of h r)), h))
         else
           let (abs, h) = alloc_Int 0 h;
               h = Int_set abs \<bar>Int_val h (value_of h d)\<bar> h;
               str = big_String (Int_val h abs);
               dExpInt = sint (exp_of h d);
               (intPart, fractionalPart) =
                 (if int (length str) > - dExpInt
                  then (take (nat (int (length str) + dExpInt)) str,
                        drop (nat (int (length str) + dExpInt)) str)
                  else (''0'', replicate (nat (- dExpInt - int (length str))) CHR ''0'' @ str));
               fractionalPart =
                 (if trimTrailingZeros
                  then take (trim_loop fractionalPart (length fractionalPart)) fractionalPart
                  else fractionalPart);
               number = (if length fractionalPart > 0 then intPart @ ''.'' @ fractionalPart else intPart)
           in (if big_Sign (Int_val h (value_of h d)) < 0 then ''-'' @ number else number, h))"

definition StringFixedBank_h :: "addr \<Rightarrow> int32 \<Rightarrow> heap \<Rightarrow> string \<times> heap" where
  "StringFixedBank_h d places h =
     (let (rounded, h) = RoundBank_h d places h
      in string_h (decs h ! rounded) False h)"

section \<open>Notions the properties are stated with\<close>

subsection \<open>The number a Decimal stands for\<close>

text \<open>
  The claims speak of the represented value \<open>coefficient \<times> 10^exponent\<close>; it is a real
  number, since the exponent may be negative.
\<close>

definition real_of_dec :: "Decimal \<Rightarrow> real" where
  "real_of_dec d = of_int (value_d d) * 10 powi sint (exp_d d)"

text \<open>
  The closed form of what the in-place steps of \<^verbatim>\<open>Round\<close> do to a coefficient \<open>x\<close> (add or
  subtract five, divide by ten, correct a negative quotient): lemma \<open>Round_eq\<close> proves it
  from the definition of \<open>Round\<close>.
\<close>

definition half_away :: "int \<Rightarrow> int" where
  "half_away x = sgn x * ((\<bar>x\<bar> + 5) div 10)"

subsection \<open>Stores\<close>

text \<open>The Decimal value that a pointer stands for in a store.\<close>

definition dec_of :: "heap \<Rightarrow> addr \<Rightarrow> Decimal" where
  "dec_of h d = \<lparr>value_d = Int_val h (value_of h d), exp_d = exp_of h d\<rparr>"

text \<open>
  A pointer is well formed when it points to a \<^verbatim>\<open>Decimal\<close> of the store whose \<^verbatim>\<open>value\<close>
  points to a \<^verbatim>\<open>big.Int\<close> of the store; the package variables are intact when they hold
  0, 1, 5 and 10.
\<close>

definition wf_Decimal :: "heap \<Rightarrow> addr \<Rightarrow> bool" where
  "wf_Decimal h d \<longleftrightarrow> d < length (decs h) \<and> value_of h d < length (ints h)"

definition globals_ok :: "heap \<Rightarrow> bool" where
  "globals_ok h \<longleftrightarrow>
     4 \<le> length (ints h) \<and> Int_val h zeroInt_p = zeroInt \<and> Int_val h oneInt_p = oneInt \<and>
     Int_val h fiveInt_p = fiveInt \<and> Int_val h tenInt_p = tenInt"

text \<open>
  \<open>unchanged h h'\<close>: every \<^verbatim>\<open>big.Int\<close> and every \<^verbatim>\<open>Decimal\<close> struct that exists in \<open>h\<close> has
  the same content in \<open>h'\<close>. \<open>fresh_Decimal h h' r\<close>: the struct at \<open>r\<close> and the \<^verbatim>\<open>big.Int\<close>
  its \<^verbatim>\<open>value\<close> points to were both allocated after \<open>h\<close>.
\<close>

definition unchanged :: "heap \<Rightarrow> heap \<Rightarrow> bool" where
  "unchanged h h' \<longleftrightarrow>
     take (length (ints h)) (ints h') = ints h \<and> take (length (decs h)) (decs h') = decs h"

definition fresh_Decimal :: "heap \<Rightarrow> heap \<Rightarrow> addr \<Rightarrow> bool" where
  "fresh_Decimal h h' r \<longleftrightarrow>
     length (decs h) \<le> r \<and> r < length (decs h') \<and>
     length (ints h) \<le> value_of h' r \<and> value_of h' r < length (ints h')"

text \<open>
  What a call with the operands \<open>d\<close> and \<open>d2\<close> (twice the same pointer for a unary
  operation) must leave alone, and what must hold of the Decimal it returns: it is a new
  struct, other than both operands, and its coefficient is stored apart from theirs.
\<close>

definition call_frame :: "heap \<Rightarrow> addr \<Rightarrow> addr \<Rightarrow> heap \<Rightarrow> bool" where
  "call_frame h d d2 h' \<longleftrightarrow>
     unchanged h h' \<and>
     dec_of h' d = dec_of h d \<and> value_of h' d = value_of h d \<and>
     dec_of h' d2 = dec_of h d2 \<and> value_of h' d2 = value_of h d2"

definition result_fresh :: "heap \<Rightarrow> addr \<Rightarrow> addr \<Rightarrow> heap \<Rightarrow> addr \<Rightarrow> bool" where
  "result_fresh h d d2 h' r \<longleftrightarrow>
     fresh_Decimal h h' r \<and> r \<noteq> d \<and> r \<noteq> d2 \<and>
     value_of h' r \<noteq> value_of h' d \<and> value_of h' r \<noteq> value_of h' d2"

text \<open>A store with the Decimals 10.05 and 70, after the package variables.\<close>

definition example_heap :: heap where
  "example_heap = \<lparr>ints = [0, 1, 5, 10, 1005, 7],
                    decs = [\<lparr>value_p = 4, exp_f = - 2\<rparr>, \<lparr>value_p = 5, exp_f = 1\<rparr>]\<rparr>"

section \<open>Lemmas\<close>

subsection \<open>The library operations and \<^verbatim>\<open>rescale\<close>\<close>

lemma big_Exp_ten_pos: "0 < big_Exp tenInt y"
  by (simp add: big_Exp_def tenInt_def)

lemma float64_round_exact:
  assumes "\<bar>n\<bar> < 2 ^ 53"
  shows "float64_round n = n"
proof -
  have "nat \<bar>n\<bar> < 2 ^ 53"
    using assms by (simp add: nat_less_iff)
  then have "floorlog 2 (nat \<bar>n\<bar>) \<le> 53"
    by (simp add: floorlog_le_iff)
  then have k: "floorlog 2 (nat \<bar>n\<bar>) - 53 = 0"
    by simp
  show ?thesis
    unfolding float64_round_def Let_def k
    by (simp add: mult_sgn_abs)
qed

lemma sint32_bounds: "- 2147483648 \<le> sint (x :: int32)" "sint (x :: int32) \<le> 2147483647"
  using sint_ge [of x] sint_lt [of x] by simp_all

lemma float64_of_int32_exact: "float64_of_int32 x = sint x"
  unfolding float64_of_int32_def
  using sint32_bounds [of x] by (intro float64_round_exact) simp

lemma rescale_diff_exact: "rescale_diff e' e = \<bar>sint e' - sint e\<bar>"
proof -
  have "\<bar>sint e' - sint e\<bar> < 2 ^ 53"
    using sint32_bounds [of e] sint32_bounds [of e'] by simp
  then show ?thesis
    by (simp add: rescale_diff_def math_Abs_def float64_sub_def float64_of_int32_exact
        float64_round_exact)
qed

lemma rescale_diff_range: "0 \<le> rescale_diff e' e" "rescale_diff e' e < 2 ^ 32"
  using sint32_bounds [of e] sint32_bounds [of e'] by (simp_all add: rescale_diff_exact)

lemma rescale_expScale:
  "big_Exp tenInt (big_NewInt (int64_of_float64 (rescale_diff e' e))) = 10 ^ nat \<bar>sint e' - sint e\<bar>"
proof -
  let ?n = "\<bar>sint e' - sint e\<bar>"
  have r: "0 \<le> ?n" "?n < 2 ^ 32"
    using sint32_bounds [of e] sint32_bounds [of e'] by simp_all
  have "sint (word_of_int ?n :: int64) = ?n"
    using r by (simp add: sint_sbintrunc' signed_take_bit_int_eq_self)
  then show ?thesis
    using r by (simp add: rescale_diff_exact int64_of_float64_def big_NewInt_def big_Exp_def tenInt_def)
qed

text \<open>What \<^verbatim>\<open>rescale\<close> computes, with the library calls resolved.\<close>

lemma rescale_eq:
  "rescale d e' =
     \<lparr>value_d = (if sint (exp_d d) < sint e'
                 then big_Quo (value_d d) (10 ^ nat (sint e' - sint (exp_d d)))
                 else value_d d * 10 ^ nat (sint (exp_d d) - sint e')),
      exp_d = e'\<rparr>"
  by (simp add: rescale_def Let_def rescale_expScale)

lemma Mul_expInt64:
  "sint ((scast (e1 :: int32) :: int64) + scast (e2 :: int32)) = sint e1 + sint e2"
proof -
  have up: "sint (scast e1 :: int64) = sint e1" "sint (scast e2 :: int64) = sint e2"
    by (simp_all add: sint_up_scast is_up)
  have "sint ((scast e1 :: int64) + scast e2) = signed_take_bit 63 (sint e1 + sint e2)"
    by (simp add: sint_word_ariths up)
  also have "\<dots> = sint e1 + sint e2"
    using sint32_bounds [of e1] sint32_bounds [of e2]
    by (intro signed_take_bit_int_eq_self) simp_all
  finally show ?thesis .
qed

lemma int32_of_int64:
  assumes "- 2147483648 \<le> sint (x :: int64)" "sint x \<le> 2147483647"
  shows "sint (scast x :: int32) = sint x"
proof -
  have "sint (scast x :: int32) = signed_take_bit 31 (sint x)"
    by (simp add: signed_scast_eq)
  also have "\<dots> = sint x"
    using assms by (intro signed_take_bit_int_eq_self) simp_all
  finally show ?thesis .
qed

lemma big_Quo_mult_cancel: "0 < m \<Longrightarrow> big_Quo (v * m) m = v"
  by (simp add: big_Quo_def abs_mult sgn_mult mult_sgn_abs)

lemma sint_min_i32: "sint (min_i32 x y) = min (sint x) (sint y)"
  by (simp add: min_i32_def min_def)

lemma min_i32_absorb: "min_i32 (min_i32 x y) y = min_i32 x y"
  by (simp add: min_i32_def)

lemma min_i32_cases: "min_i32 x y = x \<or> min_i32 x y = y"
  by (simp add: min_i32_def)

lemma rescale_down:
  "sint e' \<le> sint (exp_d d) \<Longrightarrow>
   rescale d e' = \<lparr>value_d = value_d d * 10 ^ nat (sint (exp_d d) - sint e'), exp_d = e'\<rparr>"
  by (simp add: rescale_eq)

lemma rescale_same: "rescale d (exp_d d) = d"
  by (simp add: rescale_eq)

lemma big_DivMod_ten: "big_DivMod y tenInt = (y div 10, y mod 10)"
  by (simp add: big_DivMod_def tenInt_def Let_def minus_mod_eq_mult_div)

lemma round_step_nonneg:
  fixes x :: int
  assumes "0 \<le> x"
  shows "(x + 5) div 10 = half_away x" "0 \<le> (x + 5) div 10"
  using assms by (simp_all add: half_away_def sgn_if)

lemma round_step_neg:
  fixes x :: int
  assumes "x < 0"
  shows "(x - 5) div 10 < 0"
    and "(x - 5) mod 10 \<noteq> 0 \<Longrightarrow> (x - 5) div 10 + 1 = half_away x"
    and "(x - 5) mod 10 = 0 \<Longrightarrow> (x - 5) div 10 = half_away x"
proof -
  show "(x - 5) div 10 < 0" using assms by simp
  have d: "(- (x - 5)) div 10 =
      (if (x - 5) mod 10 = 0 then - ((x - 5) div 10) else - ((x - 5) div 10) - 1)"
    by (rule zdiv_zminus1_eq_if) simp
  have "\<bar>x\<bar> + 5 = - (x - 5)" using assms by simp
  then have h: "half_away x = - ((- (x - 5)) div 10)"
    using assms by (simp only: half_away_def sgn_if) simp
  show "(x - 5) mod 10 \<noteq> 0 \<Longrightarrow> (x - 5) div 10 + 1 = half_away x"
    unfolding h d by simp
  show "(x - 5) mod 10 = 0 \<Longrightarrow> (x - 5) div 10 = half_away x"
    unfolding h d by simp
qed

lemma Round_eq:
  "Round d places =
     \<lparr>value_d = half_away (value_d (rescale d (- places - 1))), exp_d = - places\<rparr>"
proof (cases "value_d (rescale d (- places - 1)) < 0")
  case True
  have e: "exp_d (rescale d (- places - 1)) = - places - 1"
    by (simp add: rescale_eq)
  show ?thesis
    using True round_step_neg [OF True]
    by (cases "(value_d (rescale d (- places - 1)) - 5) mod 10 = 0")
      (simp_all add: Round_def Let_def big_Sign_def big_Cmp_def big_DivMod_ten fiveInt_def oneInt_def
        zeroInt_def e)
next
  case False
  have e: "exp_d (rescale d (- places - 1)) = - places - 1"
    by (simp add: rescale_eq)
  from False have nn: "0 \<le> value_d (rescale d (- places - 1))" by simp
  show ?thesis
    using False round_step_nonneg [OF nn]
    by (simp add: Round_def Let_def big_Sign_def big_Cmp_def big_DivMod_ten fiveInt_def oneInt_def
        zeroInt_def e)
qed

lemma sint_neg_places:
  assumes "- (2 ^ 31) < sint (p :: int32)"
  shows "sint (- p) = - sint p" and "sint (- p - 1) = - sint p - 1"
proof -
  have "sint (- p) = signed_take_bit 31 (- sint p)"
    by (simp add: sint_word_ariths)
  also have "\<dots> = - sint p"
    using assms sint32_bounds [of p] by (intro signed_take_bit_int_eq_self) simp_all
  finally show n: "sint (- p) = - sint p" .
  have "sint (- p - 1) = signed_take_bit 31 (sint (- p) - 1)"
    by (simp add: sint_word_ariths)
  also have "\<dots> = - sint p - 1"
    unfolding n using assms sint32_bounds [of p] by (intro signed_take_bit_int_eq_self) simp_all
  finally show "sint (- p - 1) = - sint p - 1" .
qed

lemma half_away_times_ten: "half_away (h * 10) = h"
proof -
  have "(\<bar>h\<bar> * 10 + 5) div 10 = \<bar>h\<bar>" by simp
  then show ?thesis
    by (simp add: half_away_def abs_mult sgn_mult mult_sgn_abs)
qed

lemma ten_powi_split:
  "n \<le> m \<Longrightarrow> (10::real) ^ nat (m - n) * 10 powi n = 10 powi m"
proof -
  assume "n \<le> m"
  then have "(10::real) ^ nat (m - n) = 10 powi (m - n)"
    by (simp add: power_int_def)
  then show ?thesis
    by (simp add: power_int_add [symmetric])
qed

lemma real_of_dec_rescale_down:
  assumes "sint e' \<le> sint (exp_d d)"
  shows "real_of_dec (rescale d e') = real_of_dec d"
  using assms ten_powi_split [OF assms]
  by (simp add: rescale_down real_of_dec_def mult.assoc)

lemma big_Cmp_real:
  assumes "exp_d a = exp_d b"
  shows "big_Cmp (value_d a) (value_d b) =
    (if real_of_dec a < real_of_dec b then - 1 else if real_of_dec a = real_of_dec b then 0 else 1)"
proof -
  have p: "(0::real) < 10 powi sint (exp_d b)" by simp
  show ?thesis
    using assms p by (simp add: big_Cmp_def real_of_dec_def mult_less_cancel_right_pos)
qed

lemma Cmp_real:
  "Cmp a b = (if real_of_dec a < real_of_dec b then - 1 else if real_of_dec a = real_of_dec b then 0 else 1)"
proof (cases "exp_d a = exp_d b")
  case True
  then show ?thesis by (simp add: Cmp_def big_Cmp_real)
next
  case False
  let ?m = "min_i32 (exp_d a) (exp_d b)"
  have le: "sint ?m \<le> sint (exp_d a)" "sint ?m \<le> sint (exp_d b)"
    by (simp_all add: sint_min_i32)
  have "Cmp a b = big_Cmp (value_d (rescale a ?m)) (value_d (rescale b ?m))"
    using False by (simp add: Cmp_def Let_def)
  also have "\<dots> = (if real_of_dec (rescale a ?m) < real_of_dec (rescale b ?m) then - 1
      else if real_of_dec (rescale a ?m) = real_of_dec (rescale b ?m) then 0 else 1)"
    by (rule big_Cmp_real) (simp add: rescale_eq)
  finally show ?thesis
    by (simp only: real_of_dec_rescale_down [OF le(1)] real_of_dec_rescale_down [OF le(2)])
qed

lemma real_of_dec_Add: "real_of_dec (Add a b) = real_of_dec a + real_of_dec b"
proof -
  let ?m = "min_i32 (exp_d a) (exp_d b)"
  have le: "sint ?m \<le> sint (exp_d a)" "sint ?m \<le> sint (exp_d b)"
    by (simp_all add: sint_min_i32)
  have "real_of_dec (Add a b) = real_of_dec (rescale a ?m) + real_of_dec (rescale b ?m)"
    by (simp add: Add_def Let_def real_of_dec_def rescale_eq algebra_simps)
  then show ?thesis
    by (simp only: real_of_dec_rescale_down [OF le(1)] real_of_dec_rescale_down [OF le(2)])
qed

lemma real_of_dec_Sub: "real_of_dec (Sub a b) = real_of_dec a - real_of_dec b"
proof -
  let ?m = "min_i32 (exp_d a) (exp_d b)"
  have le: "sint ?m \<le> sint (exp_d a)" "sint ?m \<le> sint (exp_d b)"
    by (simp_all add: sint_min_i32)
  have "real_of_dec (Sub a b) = real_of_dec (rescale a ?m) - real_of_dec (rescale b ?m)"
    by (simp add: Sub_def Let_def real_of_dec_def rescale_eq algebra_simps)
  then show ?thesis
    by (simp only: real_of_dec_rescale_down [OF le(1)] real_of_dec_rescale_down [OF le(2)])
qed

lemma real_of_dec_Abs: "real_of_dec (Abs a) = \<bar>real_of_dec a\<bar>"
  by (simp add: Abs_def real_of_dec_def abs_mult)

lemma half_div_nearest:
  fixes n D :: int
  assumes "0 \<le> n" "0 < D"
  defines "q \<equiv> (n + 5 * D) div (10 * D)"
  shows "\<bar>real_of_int q - real_of_int n / real_of_int (10 * D)\<bar> \<le> 1 / 2"
    and "\<bar>real_of_int q - real_of_int n / real_of_int (10 * D)\<bar> = 1 / 2
          \<Longrightarrow> real_of_int n / real_of_int (10 * D) < real_of_int q"
    and "0 \<le> q"
proof -
  let ?M = "10 * D"
  have M: "0 < ?M" using assms by simp
  have eq: "n + 5 * D = ?M * q + (n + 5 * D) mod ?M"
    unfolding q_def by simp
  have "0 \<le> (n + 5 * D) mod ?M" "(n + 5 * D) mod ?M < ?M"
    using M by simp_all
  with eq have lo: "?M * q \<le> n + 5 * D" and hi: "n + 5 * D < ?M * q + ?M"
    by linarith+
  have lo': "real_of_int ?M * real_of_int q \<le> real_of_int n + 5 * real_of_int D"
    using lo by (metis (mono_tags) of_int_add of_int_le_iff of_int_mult of_int_numeral)
  have hi': "real_of_int n + 5 * real_of_int D < real_of_int ?M * real_of_int q + real_of_int ?M"
    using hi by (metis (mono_tags) of_int_add of_int_less_iff of_int_mult of_int_numeral)
  have Mr: "0 < real_of_int ?M" using M by simp
  define t where "t = real_of_int n / real_of_int ?M"
  have n: "real_of_int n = t * real_of_int ?M"
    using Mr by (simp add: t_def)
  have D5: "5 * real_of_int D = real_of_int ?M / 2" by simp
  have "real_of_int ?M * real_of_int q \<le> real_of_int ?M * (t + 1 / 2)"
    using lo' unfolding n D5 by (simp add: algebra_simps)
  then have a: "real_of_int q \<le> t + 1 / 2"
    using Mr by (simp only: mult_le_cancel_left_pos)
  have "real_of_int ?M * (t + 1 / 2) < real_of_int ?M * (real_of_int q + 1)"
    using hi' unfolding n D5 by (simp add: algebra_simps)
  then have b: "t + 1 / 2 < real_of_int q + 1"
    using Mr by (simp only: mult_less_cancel_left_pos)
  show "\<bar>real_of_int q - real_of_int n / real_of_int ?M\<bar> \<le> 1 / 2"
    using a b unfolding t_def [symmetric] by linarith
  show "\<bar>real_of_int q - real_of_int n / real_of_int ?M\<bar> = 1 / 2
          \<Longrightarrow> real_of_int n / real_of_int ?M < real_of_int q"
    using a b unfolding t_def [symmetric] by linarith
  show "0 \<le> q"
    unfolding q_def using assms by (simp add: pos_imp_zdiv_nonneg_iff)
qed

lemma signed_nearest_real:
  fixes Q T :: real
  assumes h1: "\<bar>Q - T\<bar> \<le> 1 / 2" and h2: "\<bar>Q - T\<bar> = 1 / 2 \<Longrightarrow> T < Q"
    and h3: "0 \<le> Q" and t0: "0 \<le> T"
  shows "\<bar>- Q - (- T)\<bar> \<le> 1 / 2 \<and> (\<bar>- Q - (- T)\<bar> = 1 / 2 \<longrightarrow> \<bar>- T\<bar> < \<bar>- Q\<bar>)"
    and "\<bar>Q - T\<bar> \<le> 1 / 2 \<and> (\<bar>Q - T\<bar> = 1 / 2 \<longrightarrow> \<bar>T\<bar> < \<bar>Q\<bar>)"
proof -
  have c: "\<bar>- Q - (- T)\<bar> = \<bar>Q - T\<bar>" by linarith
  have "\<bar>Q - T\<bar> = 1 / 2 \<longrightarrow> \<bar>T\<bar> < \<bar>Q\<bar>"
  proof
    assume "\<bar>Q - T\<bar> = 1 / 2"
    then have "T < Q" by (rule h2)
    then show "\<bar>T\<bar> < \<bar>Q\<bar>" using h3 t0 by linarith
  qed
  then show "\<bar>Q - T\<bar> \<le> 1 / 2 \<and> (\<bar>Q - T\<bar> = 1 / 2 \<longrightarrow> \<bar>T\<bar> < \<bar>Q\<bar>)"
    using h1 by simp
  then show "\<bar>- Q - (- T)\<bar> \<le> 1 / 2 \<and> (\<bar>- Q - (- T)\<bar> = 1 / 2 \<longrightarrow> \<bar>- T\<bar> < \<bar>- Q\<bar>)"
    unfolding c by simp
qed

lemma half_away_signed_nearest:
  fixes a D :: int
  assumes "0 < D"
  defines "y \<equiv> sgn a * ((\<bar>a\<bar> + 5 * D) div (10 * D))"
  defines "r \<equiv> real_of_int a / real_of_int (10 * D)"
  shows "\<bar>real_of_int y - r\<bar> \<le> 1 / 2 \<and> (\<bar>real_of_int y - r\<bar> = 1 / 2 \<longrightarrow> \<bar>r\<bar> < \<bar>real_of_int y\<bar>)"
proof -
  define Q where "Q = real_of_int ((\<bar>a\<bar> + 5 * D) div (10 * D))"
  define T where "T = real_of_int \<bar>a\<bar> / real_of_int (10 * D)"
  note h = half_div_nearest [of "\<bar>a\<bar>" D, OF _ assms(1)]
  have h1: "\<bar>Q - T\<bar> \<le> 1 / 2" unfolding Q_def T_def using h(1) by simp
  have h2: "\<bar>Q - T\<bar> = 1 / 2 \<Longrightarrow> T < Q" unfolding Q_def T_def using h(2) by simp
  have h3: "0 \<le> Q" unfolding Q_def using h(3) by simp
  have t0: "0 \<le> T" unfolding T_def using assms(1) by simp
  note n = signed_nearest_real [OF h1 h2 h3 t0]
  consider "a = 0" | "0 < a" | "a < 0" by linarith
  then show ?thesis
  proof cases
    case 1
    then show ?thesis using assms(1) by (simp add: y_def r_def)
  next
    case 2
    then have "real_of_int y = Q" "r = T"
      by (simp_all add: y_def r_def Q_def T_def)
    then show ?thesis using n(2) by simp
  next
    case 3
    then have "real_of_int y = - Q" "r = - T"
      by (simp_all add: y_def r_def Q_def T_def)
    then show ?thesis using n(1) by simp
  qed
qed

lemma half_div_shift:
  fixes n D :: int
  assumes "0 < D"
  shows "(n + 5 * D) div (10 * D) = (n div D + 5) div 10"
proof -
  have "(n + 5 * D) div (D * 10) = (n + 5 * D) div D div 10"
    by (rule zdiv_zmult2_eq) simp
  moreover have "(n + 5 * D) div D = n div D + 5"
    using assms by simp
  ultimately show ?thesis by (simp add: mult.commute)
qed

lemma half_away_Quo:
  assumes "0 < D"
  shows "half_away (big_Quo c D) = sgn c * ((\<bar>c\<bar> + 5 * D) div (10 * D))"
proof -
  let ?k = "\<bar>c\<bar> div D"
  have k: "0 \<le> ?k" using assms by (simp add: pos_imp_zdiv_nonneg_iff)
  have q: "big_Quo c D = sgn c * ?k"
    using assms by (simp add: big_Quo_def)
  show ?thesis
  proof (cases "?k = 0 \<or> c = 0")
    case True
    then have "half_away (big_Quo c D) = 0"
      unfolding q by (auto simp add: half_away_def)
    moreover have "sgn c * ((?k + 5) div 10) = 0"
      using True by auto
    ultimately show ?thesis
      by (simp only: half_div_shift [OF assms])
  next
    case False
    with k have "0 < ?k" "c \<noteq> 0" by simp_all
    then have "sgn (sgn c * ?k) = sgn c" "\<bar>sgn c * ?k\<bar> = ?k"
      by (simp_all add: sgn_mult abs_mult abs_sgn_eq)
    then show ?thesis
      unfolding q half_away_def by (simp only: half_div_shift [OF assms])
  qed
qed

lemma Round_coefficient:
  assumes "- (2 ^ 31) < sint p"
  shows "\<exists>a D. 0 < D \<and> value_d (Round v p) = sgn a * ((\<bar>a\<bar> + 5 * D) div (10 * D))
          \<and> real_of_dec v / 10 powi (- sint p) = real_of_int a / real_of_int (10 * D)"
proof -
  let ?T = "- sint p - 1"
  let ?e = "sint (exp_d v)"
  let ?c = "value_d v"
  have t: "sint (- p - 1) = ?T" by (rule sint_neg_places(2) [OF assms])
  have p10: "(10::real) powi (- sint p) = 10 powi ?T * 10"
    using power_int_add [of "10::real" ?T 1] by simp
  show ?thesis
  proof (cases "?e < ?T")
    case True
    let ?D = "(10::int) ^ nat (?T - ?e)"
    have D: "0 < ?D" by simp
    have "value_d (Round v p) = half_away (big_Quo ?c ?D)"
      using True by (simp add: Round_eq rescale_eq t)
    then have v: "value_d (Round v p) = sgn ?c * ((\<bar>?c\<bar> + 5 * ?D) div (10 * ?D))"
      by (simp only: half_away_Quo [OF D])
    have f: "(10::real) powi ?T = real_of_int ?D * 10 powi ?e"
      using True ten_powi_split [of ?e ?T] by simp
    have "real_of_dec v / 10 powi (- sint p) =
        (real_of_int ?c * 10 powi ?e) / ((real_of_int ?D * 10 powi ?e) * 10)"
      by (simp only: p10 real_of_dec_def f)
    also have "\<dots> = real_of_int ?c / real_of_int (10 * ?D)"
      by simp
    finally show ?thesis using D v by blast
  next
    case False
    let ?a = "?c * 10 ^ nat (?e - ?T)"
    have "value_d (Round v p) = half_away ?a"
      using False by (simp add: Round_eq rescale_eq t)
    then have v: "value_d (Round v p) = sgn ?a * ((\<bar>?a\<bar> + 5 * 1) div (10 * 1))"
      by (simp add: half_away_def)
    have "(10::real) ^ nat (?e - ?T) * 10 powi ?T = 10 powi ?e"
      using False ten_powi_split [of ?T ?e] by simp
    then have "real_of_dec v = real_of_int ?a * 10 powi ?T"
      unfolding real_of_dec_def by (simp add: mult.assoc)
    then have "real_of_dec v / 10 powi (- sint p) = real_of_int ?a / real_of_int (10 * 1)"
      unfolding p10 by simp
    with v show ?thesis by (metis zero_less_one)
  qed
qed

lemma real_of_dec_half:
  assumes "- (2 ^ 31) < sint p"
  shows "real_of_dec (New 5 (- p - 1)) = 5 * 10 powi (- sint p - 1)"
  using sint_neg_places(2) [OF assms] by (simp add: real_of_dec_def New_def big_NewInt_def)

lemma RoundBank_tie_test:
  assumes "- (2 ^ 31) < sint p"
  shows "Cmp (Abs (Sub v (Round v p))) (New 5 (- p - 1)) = 0 \<longleftrightarrow>
         \<bar>real_of_dec v - real_of_dec (Round v p)\<bar> = 5 * 10 powi (- sint p - 1)"
  by (simp add: Cmp_real real_of_dec_Abs real_of_dec_Sub real_of_dec_half [OF assms])

lemma RoundBank_eq:
  assumes "- (2 ^ 31) < sint p"
  shows "RoundBank v p =
     (if \<bar>real_of_dec v - real_of_dec (Round v p)\<bar> = 5 * 10 powi (- sint p - 1)
         \<and> odd (value_d (Round v p))
      then (Round v p)\<lparr>value_d := value_d (Round v p) - sgn (value_d (Round v p))\<rparr>
      else Round v p)"
proof -
  have b: "big_Bit0 (value_d (Round v p)) \<noteq> 0 \<longleftrightarrow> odd (value_d (Round v p))"
    by (simp add: big_Bit0_def)
  have s: "(if big_Sign (value_d (Round v p)) < 0
            then (Round v p)\<lparr>value_d := value_d (Round v p) + oneInt\<rparr>
            else (Round v p)\<lparr>value_d := value_d (Round v p) - oneInt\<rparr>)
         = (Round v p)\<lparr>value_d := value_d (Round v p) - sgn (value_d (Round v p))\<rparr>"
    if "odd (value_d (Round v p))"
  proof -
    from that have "value_d (Round v p) \<noteq> 0" by auto
    then show ?thesis by (simp add: big_Sign_def oneInt_def sgn_if)
  qed
  show ?thesis
    unfolding RoundBank_def Let_def RoundBank_tie_test [OF assms] b
    using s by simp
qed

lemma toward_zero_odd:
  fixes x :: int
  assumes "odd x"
  shows "even (x - sgn x)" and "\<bar>x - sgn x\<bar> = \<bar>x\<bar> - 1"
proof -
  from assms have "x \<noteq> 0" by auto
  then show "even (x - sgn x)" using assms by (simp add: sgn_if)
  from \<open>x \<noteq> 0\<close> show "\<bar>x - sgn x\<bar> = \<bar>x\<bar> - 1" by (simp add: sgn_if)
qed

section \<open>Multiplication\<close>

text \<open>
  Claim C3. \<^verbatim>\<open>Mul\<close> panics exactly when the sum of the two exponents, taken as
  mathematical integers (which the 64-bit sum equals), lies outside the \<^verbatim>\<open>int32\<close>
  range. Otherwise it returns a Decimal whose exponent is that sum, not wrapped, and whose
  coefficient is the product of the two coefficients.
\<close>

theorem Mul_panics_iff_exponent_overflow:
  "((\<exists>e. Mul a b = Inl e) \<longleftrightarrow>
      (sint (exp_d a) + sint (exp_d b) < - (2 ^ 31) \<or> 2 ^ 31 - 1 < sint (exp_d a) + sint (exp_d b)))
   \<and> (- (2 ^ 31) \<le> sint (exp_d a) + sint (exp_d b) \<and> sint (exp_d a) + sint (exp_d b) \<le> 2 ^ 31 - 1
        \<longrightarrow> (\<exists>r. Mul a b = Inr r
              \<and> sint (exp_d r) = sint (exp_d a) + sint (exp_d b)
              \<and> value_d r = value_d a * value_d b))"
proof -
  let ?s = "sint (exp_d a) + sint (exp_d b)"
  show ?thesis
  proof (cases "?s < - (2 ^ 31) \<or> 2 ^ 31 - 1 < ?s")
    case True
    then have "Mul a b = Inl (Panic (''exponent '' @ big_String ?s @ '' overflows an int32!''))"
      by (auto simp add: Mul_def Let_def Mul_expInt64)
    with True show ?thesis by auto
  next
    case False
    then have r: "- 2147483648 \<le> ?s" "?s \<le> 2147483647"
      by simp_all
    have "sint (scast ((scast (exp_d a) :: int64) + scast (exp_d b)) :: int32) = ?s"
      using r by (simp add: int32_of_int64 Mul_expInt64)
    with r have "Mul a b = Inr \<lparr>value_d = value_d a * value_d b,
        exp_d = scast ((scast (exp_d a) :: int64) + scast (exp_d b))\<rparr>
      \<and> sint (scast ((scast (exp_d a) :: int64) + scast (exp_d b)) :: int32) = ?s"
      by (simp add: Mul_def Let_def Mul_expInt64)
    with False show ?thesis by auto
  qed
qed

theorem Mul_panics_iff_exponent_overflow_witness:
  "Mul (New 3 2147483647) (New 7 1) = Inl (Panic ''exponent 2147483648 overflows an int32!'')
   \<and> Mul (New 3 (- 2)) (New 7 (- 3)) = Inr (New 21 (- 5))"
proof -
  have a: "sint (exp_d (New 3 2147483647)) + sint (exp_d (New 7 1)) = 2147483648"
    by (simp add: New_def)
  have b: "sint (exp_d (New 3 (- 2))) + sint (exp_d (New 7 (- 3))) = - 5"
    by (simp add: New_def)
  have v: "value_d (New 3 (- 2)) * value_d (New 7 (- 3)) = 21"
    by (simp add: New_def big_NewInt_def)
  have d: "digits10 2147483648 = ''2147483648''"
    by (simp add: digits10.simps)
  from Mul_panics_iff_exponent_overflow [of "New 3 2147483647" "New 7 1"] a
  obtain e where "Mul (New 3 2147483647) (New 7 1) = Inl e"
    by auto
  moreover have "e = Panic ''exponent 2147483648 overflows an int32!''"
    using calculation a by (simp add: Mul_def Let_def Mul_expInt64 big_String_def d split: if_splits)
  moreover from Mul_panics_iff_exponent_overflow [of "New 3 (- 2)" "New 7 (- 3)"] b v
  obtain r where "Mul (New 3 (- 2)) (New 7 (- 3)) = Inr r" "sint (exp_d r) = - 5" "value_d r = 21"
    by auto
  moreover from this have "r = New 21 (- 5)"
    by (cases r) (auto simp add: New_def big_NewInt_def intro: signed_word_eqI)
  ultimately show ?thesis by simp
qed

section \<open>Rescaling\<close>

text \<open>
  Claim C4. For a target exponent \<open>e'\<close> not above the exponent of \<open>v\<close>, \<^verbatim>\<open>rescale\<close>
  multiplies the coefficient by \<open>10 ^ (exp v - e')\<close> exactly, and rescaling the result back
  to the exponent of \<open>v\<close> gives \<open>v\<close> again: the same coefficient (and exponent). The
  exponents range over all of \<^verbatim>\<open>int32\<close>.
\<close>

theorem rescale_round_trip:
  assumes "sint e' \<le> sint (exp_d v)"
  shows "value_d (rescale v e') = value_d v * 10 ^ nat (sint (exp_d v) - sint e')
     \<and> exp_d (rescale v e') = e'
     \<and> rescale (rescale v e') (exp_d v) = v"
proof (cases "sint e' = sint (exp_d v)")
  case True
  then have "e' = exp_d v" by (rule signed_word_eqI)
  then show ?thesis by (simp add: rescale_same)
next
  case False
  with assms have lt: "sint e' < sint (exp_d v)" by simp
  have "rescale (rescale v e') (exp_d v) = v"
    using lt by (simp add: rescale_eq big_Quo_mult_cancel)
  then show ?thesis using assms by (simp add: rescale_down)
qed

theorem rescale_round_trip_witness:
  "sint (- 3 :: int32) \<le> sint (exp_d (New 7 2))
   \<and> value_d (rescale (New 7 2) (- 3)) = 700000
   \<and> rescale (rescale (New 7 2) (- 3)) (exp_d (New 7 2)) = New 7 2"
proof -
  have h: "sint (- 3 :: int32) \<le> sint (exp_d (New 7 2))"
    by (simp add: New_def)
  have v: "value_d (New 7 2) * 10 ^ nat (sint (exp_d (New 7 2)) - sint (- 3 :: int32)) = 700000"
    by (simp add: New_def big_NewInt_def)
  from rescale_round_trip [OF h] h v show ?thesis by simp
qed

text \<open>
  Claim C5, as the code has it. The claim says that for some pair of \<^verbatim>\<open>int32\<close> exponents
  the difference taken through \<^verbatim>\<open>float64\<close> is not the exact \<open>\<bar>e' - e\<bar>\<close>. No such pair
  exists: an \<^verbatim>\<open>int32\<close> and the difference of two of them are below \<open>2 ^ 53\<close> in
  magnitude, so both conversions and the subtraction are exact, also at the two ends of
  the range, and the scale factor of \<^verbatim>\<open>rescale\<close> is \<open>10 ^ \<bar>e' - e\<bar>\<close>.
\<close>

theorem rescale_diff_float64_exact:
  "rescale_diff e' e = \<bar>sint e' - sint e\<bar>
   \<and> big_Exp tenInt (big_NewInt (int64_of_float64 (rescale_diff e' e))) = 10 ^ nat \<bar>sint e' - sint e\<bar>"
proof
  have "\<bar>sint e' - sint e\<bar> < 2 ^ 53"
    using sint32_bounds [of e] sint32_bounds [of e'] by simp
  then have "float64_sub (sint e') (sint e) = sint e' - sint e"
    by (simp add: float64_sub_def float64_round_exact)
  then show "rescale_diff e' e = \<bar>sint e' - sint e\<bar>"
    by (simp add: rescale_diff_def math_Abs_def float64_of_int32_exact)
  show "big_Exp tenInt (big_NewInt (int64_of_float64 (rescale_diff e' e)))
      = 10 ^ nat \<bar>sint e' - sint e\<bar>"
    by (rule rescale_expScale)
qed

theorem rescale_diff_float64_exact_witness:
  "rescale_diff 2147483647 (- 2147483648) = 4294967295
   \<and> rescale_diff (- 2147483648) 2147483647 = 4294967295"
  using rescale_diff_float64_exact [of 2147483647 "- 2147483648", THEN conjunct1]
    rescale_diff_float64_exact [of "- 2147483648" 2147483647, THEN conjunct1]
  by simp

theorem rescale_diff_rounding_counterexample:
  "\<not> (\<exists>e e'. rescale_diff e' e \<noteq> \<bar>sint e' - sint e\<bar>)"
  by (simp add: rescale_diff_exact)

section \<open>Comparison, addition and subtraction\<close>

text \<open>
  Claim C6. \<^verbatim>\<open>Cmp\<close> returns -1, 0 or +1 (less, equal, greater) according to the order of
  the represented values \<open>coefficient \<times> 10^exponent\<close>, for every pair of operands: whether
  the exponents are equal (the coefficients are compared directly) or differ (both are
  rescaled to the smaller exponent first). The result is \<open>equal\<close> exactly when it is neither
  \<open>less\<close> nor \<open>greater\<close>.
\<close>

theorem Cmp_orders_represented_values:
  "Cmp a b = (if real_of_dec a < real_of_dec b then - 1
              else if real_of_dec a = real_of_dec b then 0 else 1)
   \<and> (Cmp a b = 0 \<longleftrightarrow> Cmp a b \<noteq> - 1 \<and> Cmp a b \<noteq> 1)"
proof -
  have c: "Cmp a b = (if real_of_dec a < real_of_dec b then - 1
              else if real_of_dec a = real_of_dec b then 0 else 1)"
    by (rule Cmp_real)
  then have "Cmp a b = 0 \<longleftrightarrow> Cmp a b \<noteq> - 1 \<and> Cmp a b \<noteq> 1"
    by (simp split: if_splits)
  with c show ?thesis by blast
qed

theorem Cmp_orders_represented_values_witness:
  "Cmp (New 15 (- 1)) (New 2 0) = - 1
   \<and> Cmp (New 20 (- 1)) (New 2 0) = 0
   \<and> Cmp (New 2 0) (New 2 0) = 0
   \<and> Cmp (New 3 0) (New 25 (- 1)) = 1
   \<and> Cmp (New (- 3) 0) (New (- 4) 0) = 1"
proof -
  have r: "real_of_dec (New 15 (- 1)) = 3 / 2" "real_of_dec (New 2 0) = 2"
    "real_of_dec (New 20 (- 1)) = 2" "real_of_dec (New 3 0) = 3"
    "real_of_dec (New 25 (- 1)) = 5 / 2" "real_of_dec (New (- 3) 0) = - 3"
    "real_of_dec (New (- 4) 0) = - 4"
    by (simp_all add: real_of_dec_def New_def big_NewInt_def)
  show ?thesis
    using Cmp_orders_represented_values [of "New 15 (- 1)" "New 2 0"]
      Cmp_orders_represented_values [of "New 20 (- 1)" "New 2 0"]
      Cmp_orders_represented_values [of "New 2 0" "New 2 0"]
      Cmp_orders_represented_values [of "New 3 0" "New 25 (- 1)"]
      Cmp_orders_represented_values [of "New (- 3) 0" "New (- 4) 0"]
    unfolding r by simp
qed

text \<open>
  Claim C10. Subtracting \<open>b\<close> from \<open>a\<close> and adding \<open>b\<close> back gives a Decimal that \<^verbatim>\<open>Cmp\<close>
  finds equal to \<open>a\<close>, for all Decimals \<open>a\<close> and \<open>b\<close>: \<^verbatim>\<open>Add\<close> and \<^verbatim>\<open>Sub\<close> rescale to the
  smaller exponent, which loses nothing.
\<close>

theorem Sub_then_Add_Cmp_equal: "Cmp (Add (Sub a b) b) a = 0"
proof -
  have "real_of_dec (Add (Sub a b) b) = real_of_dec a - real_of_dec b + real_of_dec b"
    by (simp only: real_of_dec_Add real_of_dec_Sub)
  then have "real_of_dec (Add (Sub a b) b) = real_of_dec a"
    by simp
  then show ?thesis
    by (simp add: Cmp_real)
qed

theorem Sub_then_Add_Cmp_equal_witness:
  "Cmp (Add (Sub (New 15 (- 1)) (New 2 3)) (New 2 3)) (New 15 (- 1)) = 0"
  by (rule Sub_then_Add_Cmp_equal)

section \<open>Rounding\<close>

text \<open>
  Claim C1. For every Decimal \<open>v\<close> and every \<^verbatim>\<open>int32\<close> \<open>p\<close> above \<open>-2^31\<close>, \<^verbatim>\<open>Round\<close>
  returns a Decimal with exponent \<open>-p\<close> whose coefficient is the integer nearest to
  \<open>value v / 10^(-p)\<close>, a tie going to the candidate of larger magnitude (away from zero):
  the coefficient is within one half of the quotient, and where it is exactly one half
  away its magnitude exceeds the quotient's. In particular 5.5 rounds to 6 and -5.5 to -6.
\<close>

theorem Round_half_away_from_zero:
  assumes "- (2 ^ 31) < sint p"
  shows "exp_d (Round v p) = - p \<and> sint (exp_d (Round v p)) = - sint p
       \<and> \<bar>real_of_int (value_d (Round v p)) - real_of_dec v / 10 powi (- sint p)\<bar> \<le> 1 / 2
       \<and> (\<bar>real_of_int (value_d (Round v p)) - real_of_dec v / 10 powi (- sint p)\<bar> = 1 / 2
            \<longrightarrow> \<bar>real_of_dec v / 10 powi (- sint p)\<bar> < \<bar>real_of_int (value_d (Round v p))\<bar>)
       \<and> value_d (Round (New 55 (- 1)) 0) = 6
       \<and> value_d (Round (New (- 55) (- 1)) 0) = - 6"
proof -
  obtain a D where D: "0 < D"
    and v: "value_d (Round v p) = sgn a * ((\<bar>a\<bar> + 5 * D) div (10 * D))"
    and r: "real_of_dec v / 10 powi (- sint p) = real_of_int a / real_of_int (10 * D)"
    using Round_coefficient [OF assms] by blast
  have n: "\<bar>real_of_int (value_d (Round v p)) - real_of_dec v / 10 powi (- sint p)\<bar> \<le> 1 / 2
       \<and> (\<bar>real_of_int (value_d (Round v p)) - real_of_dec v / 10 powi (- sint p)\<bar> = 1 / 2
            \<longrightarrow> \<bar>real_of_dec v / 10 powi (- sint p)\<bar> < \<bar>real_of_int (value_d (Round v p))\<bar>)"
    unfolding v r by (rule half_away_signed_nearest [OF D])
  have e: "exp_d (Round v p) = - p \<and> sint (exp_d (Round v p)) = - sint p"
    using sint_neg_places(1) [OF assms] by (simp add: Round_eq)
  have x1: "value_d (Round (New 55 (- 1)) 0) = 6"
    by (simp add: Round_eq rescale_eq New_def big_NewInt_def half_away_def)
  have x2: "value_d (Round (New (- 55) (- 1)) 0) = - 6"
    by (simp add: Round_eq rescale_eq New_def big_NewInt_def half_away_def)
  from e n x1 x2 show ?thesis by blast
qed

theorem Round_half_away_from_zero_witness:
  "- (2 ^ 31) < sint (0 :: int32)
   \<and> exp_d (Round (New (- 55) (- 1)) 0) = 0
   \<and> value_d (Round (New (- 55) (- 1)) 0) = - 6
   \<and> real_of_dec (New (- 55) (- 1)) / 10 powi (- sint (0 :: int32)) = - 11 / 2
   \<and> \<bar>real_of_dec (New (- 55) (- 1)) / 10 powi (- sint (0 :: int32))\<bar>
       < \<bar>real_of_int (value_d (Round (New (- 55) (- 1)) 0))\<bar>"
proof -
  have h: "- (2 ^ 31) < sint (0 :: int32)" by simp
  have r: "real_of_dec (New (- 55) (- 1)) / 10 powi (- sint (0 :: int32)) = - 11 / 2"
    by (simp add: real_of_dec_def New_def big_NewInt_def)
  note t = Round_half_away_from_zero [OF h, of "New (- 55) (- 1)"]
  from t have v: "value_d (Round (New (- 55) (- 1)) 0) = - 6" by blast
  from t have e: "exp_d (Round (New (- 55) (- 1)) 0) = 0" by simp
  have "\<bar>real_of_int (value_d (Round (New (- 55) (- 1)) 0))
      - real_of_dec (New (- 55) (- 1)) / 10 powi (- sint (0 :: int32))\<bar> = 1 / 2"
    unfolding v r by simp
  with t have "\<bar>real_of_dec (New (- 55) (- 1)) / 10 powi (- sint (0 :: int32))\<bar>
       < \<bar>real_of_int (value_d (Round (New (- 55) (- 1)) 0))\<bar>"
    by blast
  with h v e r show ?thesis by blast
qed

text \<open>
  Claim C8. Rounding twice to the same number of places is rounding once: for every
  Decimal \<open>v\<close> and every \<^verbatim>\<open>int32\<close> \<open>p\<close> above \<open>-2^31\<close>, \<open>Round (Round v p) p\<close> has the
  coefficient and the exponent of \<open>Round v p\<close>.
\<close>

theorem Round_idempotent:
  assumes "- (2 ^ 31) < sint p"
  shows "value_d (Round (Round v p) p) = value_d (Round v p)
       \<and> exp_d (Round (Round v p) p) = exp_d (Round v p)"
proof -
  let ?r = "Round v p"
  have e: "exp_d ?r = - p" by (simp add: Round_eq)
  have "sint (- p - 1) \<le> sint (exp_d ?r)"
    using sint_neg_places [OF assms] by (simp add: e)
  then have "value_d (rescale ?r (- p - 1)) = value_d ?r * 10 ^ nat (sint (exp_d ?r) - sint (- p - 1))"
    by (simp add: rescale_down)
  also have "\<dots> = value_d ?r * 10"
    using sint_neg_places [OF assms] by (simp add: e)
  finally have "half_away (value_d (rescale ?r (- p - 1))) = value_d ?r"
    by (simp add: half_away_times_ten)
  then show ?thesis
    by (simp add: Round_eq [of ?r p] e)
qed

theorem Round_idempotent_witness:
  "- (2 ^ 31) < sint (1 :: int32)
   \<and> value_d (Round (New 1005 (- 2)) 1) = 101
   \<and> value_d (Round (Round (New 1005 (- 2)) 1) 1) = value_d (Round (New 1005 (- 2)) 1)
   \<and> exp_d (Round (Round (New 1005 (- 2)) 1) 1) = exp_d (Round (New 1005 (- 2)) 1)"
proof -
  have h: "- (2 ^ 31) < sint (1 :: int32)" by simp
  have v: "value_d (Round (New 1005 (- 2)) 1) = 101"
    by (simp add: Round_eq rescale_eq New_def big_NewInt_def half_away_def)
  from Round_idempotent [OF h, of "New 1005 (- 2)"] h v show ?thesis by blast
qed

text \<open>
  Claim C2. For every Decimal \<open>v\<close> and every \<^verbatim>\<open>int32\<close> \<open>p\<close> above \<open>-2^31\<close>: when
  \<open>\<bar>v - Round v p\<bar>\<close> is exactly \<open>5 \<times> 10^(-p-1)\<close> and the coefficient of \<open>Round v p\<close> is odd,
  \<^verbatim>\<open>RoundBank\<close> returns that candidate with its coefficient moved one unit towards zero
  (one less in magnitude), which is even; in every other case it returns \<open>Round v p\<close>
  itself. In particular 2.5 goes to 2 and 3.5 to 4.
\<close>

theorem RoundBank_half_to_even:
  assumes "- (2 ^ 31) < sint p"
  shows "(\<bar>real_of_dec v - real_of_dec (Round v p)\<bar> = 5 * 10 powi (- sint p - 1)
            \<and> odd (value_d (Round v p))
          \<longrightarrow> RoundBank v p = (Round v p)\<lparr>value_d := value_d (Round v p) - sgn (value_d (Round v p))\<rparr>
            \<and> \<bar>value_d (RoundBank v p)\<bar> = \<bar>value_d (Round v p)\<bar> - 1
            \<and> even (value_d (RoundBank v p)))
       \<and> (\<not> (\<bar>real_of_dec v - real_of_dec (Round v p)\<bar> = 5 * 10 powi (- sint p - 1)
               \<and> odd (value_d (Round v p)))
          \<longrightarrow> RoundBank v p = Round v p)
       \<and> value_d (RoundBank (New 25 (- 1)) 0) = 2
       \<and> value_d (RoundBank (New 35 (- 1)) 0) = 4"
proof -
  have x1: "value_d (RoundBank (New 25 (- 1)) 0) = 2"
    by (simp add: RoundBank_def Let_def Round_eq rescale_eq New_def big_NewInt_def half_away_def
      Cmp_def Abs_def Sub_def min_i32_def big_Cmp_def big_Bit0_def big_Sign_def oneInt_def)
  have x2: "value_d (RoundBank (New 35 (- 1)) 0) = 4"
    by (simp add: RoundBank_def Let_def Round_eq rescale_eq New_def big_NewInt_def half_away_def
      Cmp_def Abs_def Sub_def min_i32_def big_Cmp_def big_Bit0_def big_Sign_def oneInt_def)
  show ?thesis
  proof (cases "\<bar>real_of_dec v - real_of_dec (Round v p)\<bar> = 5 * 10 powi (- sint p - 1)
            \<and> odd (value_d (Round v p))")
    case True
    then have o: "odd (value_d (Round v p))" by simp
    have "RoundBank v p = (Round v p)\<lparr>value_d := value_d (Round v p) - sgn (value_d (Round v p))\<rparr>"
      by (subst RoundBank_eq [OF assms], rule if_P, rule True)
    with True toward_zero_odd [OF o] x1 x2 show ?thesis by simp
  next
    case False
    have "RoundBank v p = Round v p"
      by (subst RoundBank_eq [OF assms], rule if_not_P, rule False)
    with False x1 x2 show ?thesis by simp
  qed
qed

theorem RoundBank_half_to_even_witness:
  "- (2 ^ 31) < sint (0 :: int32)
   \<and> \<bar>real_of_dec (New (- 25) (- 1)) - real_of_dec (Round (New (- 25) (- 1)) 0)\<bar>
        = 5 * 10 powi (- sint (0 :: int32) - 1)
   \<and> value_d (Round (New (- 25) (- 1)) 0) = - 3
   \<and> value_d (RoundBank (New (- 25) (- 1)) 0) = - 2
   \<and> \<bar>real_of_dec (New 26 (- 1)) - real_of_dec (Round (New 26 (- 1)) 0)\<bar>
        \<noteq> 5 * 10 powi (- sint (0 :: int32) - 1)
   \<and> RoundBank (New 26 (- 1)) 0 = Round (New 26 (- 1)) 0"
proof -
  have h: "- (2 ^ 31) < sint (0 :: int32)" by simp
  have r1: "Round (New (- 25) (- 1)) 0 = \<lparr>value_d = - 3, exp_d = 0\<rparr>"
    by (simp add: Round_eq rescale_eq New_def big_NewInt_def half_away_def)
  have r2: "Round (New 26 (- 1)) 0 = \<lparr>value_d = 3, exp_d = 0\<rparr>"
    by (simp add: Round_eq rescale_eq New_def big_NewInt_def half_away_def)
  have t1: "\<bar>real_of_dec (New (- 25) (- 1)) - real_of_dec (Round (New (- 25) (- 1)) 0)\<bar>
        = 5 * 10 powi (- sint (0 :: int32) - 1)"
    unfolding r1 by (simp add: real_of_dec_def New_def big_NewInt_def)
  have t2: "\<bar>real_of_dec (New 26 (- 1)) - real_of_dec (Round (New 26 (- 1)) 0)\<bar>
        \<noteq> 5 * 10 powi (- sint (0 :: int32) - 1)"
    unfolding r2 by (simp add: real_of_dec_def New_def big_NewInt_def)
  have o: "odd (value_d (Round (New (- 25) (- 1)) 0))"
    unfolding r1 by simp
  from RoundBank_half_to_even [OF h, of "New (- 25) (- 1)"] t1 o
  have "RoundBank (New (- 25) (- 1)) 0
      = (Round (New (- 25) (- 1)) 0)\<lparr>value_d := value_d (Round (New (- 25) (- 1)) 0)
          - sgn (value_d (Round (New (- 25) (- 1)) 0))\<rparr>"
    by blast
  then have a: "value_d (RoundBank (New (- 25) (- 1)) 0) = - 2"
    unfolding r1 by simp
  from RoundBank_half_to_even [OF h, of "New 26 (- 1)"] t2
  have b: "RoundBank (New 26 (- 1)) 0 = Round (New 26 (- 1)) 0"
    by blast
  from h t1 a b t2 r1 show ?thesis by simp
qed

section \<open>Rendering\<close>

lemma digits10_100: "digits10 100 = ''100''"
  by (simp add: digits10.simps)

lemma RoundBank_1005: "RoundBank (New 1005 (- 2)) 1 = \<lparr>value_d = 100, exp_d = - 1\<rparr>"
  by (simp add: RoundBank_def Let_def Round_eq rescale_eq New_def big_NewInt_def half_away_def
      Cmp_def Abs_def Sub_def min_i32_def big_Cmp_def big_Bit0_def big_Sign_def oneInt_def)

text \<open>
  Claim C7. \<^verbatim>\<open>StringFixedBank\<close> of \<open>New 1005 (-2)\<close> (10.05) with one place is the string
  \<open>10.0\<close>: the candidate of \<^verbatim>\<open>Round\<close> is 10.1 with the odd coefficient 101, the value lies
  exactly on the boundary, \<^verbatim>\<open>RoundBank\<close> moves the coefficient to the even 100, and the
  rendering keeps the fractional zero.
\<close>

theorem StringFixedBank_1005:
  "value_d (Round (New 1005 (- 2)) 1) = 101
   \<and> Cmp (Abs (Sub (New 1005 (- 2)) (Round (New 1005 (- 2)) 1))) (New 5 (- 1 - 1)) = 0
   \<and> RoundBank (New 1005 (- 2)) 1 = \<lparr>value_d = 100, exp_d = - 1\<rparr>
   \<and> StringFixedBank (New 1005 (- 2)) 1 = ''10.0''"
proof -
  have "value_d (Round (New 1005 (- 2)) 1) = 101"
    by (simp add: Round_eq rescale_eq New_def big_NewInt_def half_away_def)
  moreover have "Cmp (Abs (Sub (New 1005 (- 2)) (Round (New 1005 (- 2)) 1))) (New 5 (- 1 - 1)) = 0"
    by (simp add: RoundBank_def Let_def Round_eq rescale_eq New_def big_NewInt_def half_away_def
      Cmp_def Abs_def Sub_def min_i32_def big_Cmp_def big_Bit0_def big_Sign_def oneInt_def)
  moreover have "StringFixedBank (New 1005 (- 2)) 1 = ''10.0''"
    by (simp add: StringFixedBank_def RoundBank_1005 string_dec_def Let_def big_String_def
        digits10_100 big_Sign_def)
  ultimately show ?thesis
    using RoundBank_1005 by simp
qed

theorem StringFixedBank_1005_witness:
  "StringFixedBank (New 1005 (- 2)) 1 = ''10.0''"
  using StringFixedBank_1005 by simp

section \<open>The store-level functions\<close>

subsection \<open>Frames\<close>

lemmas heap_prims = alloc_Int_def Int_set_def alloc_Decimal_def value_of_def exp_of_def
  exp_set_def

lemma unchanged_iff:
  "unchanged h h' \<longleftrightarrow> (\<exists>xs ys. ints h' = ints h @ xs \<and> decs h' = decs h @ ys)"
proof
  assume u: "unchanged h h'"
  have "ints h' = take (length (ints h)) (ints h') @ drop (length (ints h)) (ints h')"
    "decs h' = take (length (decs h)) (decs h') @ drop (length (decs h)) (decs h')"
    by simp_all
  with u show "\<exists>xs ys. ints h' = ints h @ xs \<and> decs h' = decs h @ ys"
    unfolding unchanged_def by metis
next
  assume "\<exists>xs ys. ints h' = ints h @ xs \<and> decs h' = decs h @ ys"
  then show "unchanged h h'"
    by (auto simp add: unchanged_def)
qed

lemma unchanged_refl: "unchanged h h"
  by (simp add: unchanged_def)

lemma unchanged_trans: "unchanged h h1 \<Longrightarrow> unchanged h1 h2 \<Longrightarrow> unchanged h h2"
  unfolding unchanged_iff by (metis append.assoc)

lemma unchanged_length:
  assumes "unchanged h h'"
  shows "length (ints h) \<le> length (ints h')" and "length (decs h) \<le> length (decs h')"
  using assms unfolding unchanged_iff by auto

lemma unchanged_nth:
  assumes "unchanged h h'"
  shows "p < length (ints h) \<Longrightarrow> ints h' ! p = ints h ! p"
    and "d < length (decs h) \<Longrightarrow> decs h' ! d = decs h ! d"
  using assms unfolding unchanged_iff by (auto simp add: nth_append)

lemma unchanged_grow:
  "unchanged h h1 \<Longrightarrow> unchanged h (h1\<lparr>ints := ints h1 @ xs, decs := decs h1 @ ys\<rparr>)"
  unfolding unchanged_iff by auto

lemma unchanged_alloc_Int: "unchanged h h1 \<Longrightarrow> unchanged h (snd (alloc_Int v h1))"
  unfolding unchanged_iff by (auto simp add: alloc_Int_def)

lemma unchanged_alloc_Decimal: "unchanged h h1 \<Longrightarrow> unchanged h (snd (alloc_Decimal obj h1))"
  unfolding unchanged_iff by (auto simp add: alloc_Decimal_def)

lemma unchanged_Int_set:
  assumes "unchanged h h1" and "length (ints h) \<le> z"
  shows "unchanged h (Int_set z v h1)"
proof -
  from assms(1) obtain xs ys where s: "ints h1 = ints h @ xs" "decs h1 = decs h @ ys"
    unfolding unchanged_iff by blast
  have "(ints h @ xs)[z := v] = ints h @ xs[z - length (ints h) := v]"
    using assms(2) by (simp add: list_update_append)
  then show ?thesis
    unfolding unchanged_iff by (auto simp add: Int_set_def s)
qed

lemma unchanged_exp_set:
  assumes "unchanged h h1" and "length (decs h) \<le> d"
  shows "unchanged h (exp_set d e h1)"
proof -
  from assms(1) obtain xs ys where s: "ints h1 = ints h @ xs" "decs h1 = decs h @ ys"
    unfolding unchanged_iff by blast
  have "(decs h @ ys)[d := obj] = decs h @ ys[d - length (decs h) := obj]" for obj
    using assms(2) by (simp add: list_update_append)
  then show ?thesis
    unfolding unchanged_iff by (auto simp add: exp_set_def s)
qed

lemma value_of_exp_set: "value_of (exp_set d e h) d' = value_of h d'"
  by (cases "d < length (decs h)") (simp_all add: value_of_def exp_set_def nth_list_update list_update_beyond)

lemma rescale_h_frame:
  assumes "rescale_h d e h = (r, h')"
  shows "unchanged h h'" and "fresh_Decimal h h' r"
proof -
  have "\<exists>a b c. rescale_h d e h =
     (length (decs h), \<lparr>ints = ints h @ [a, b, c],
                        decs = decs h @ [\<lparr>value_p = length (ints h), exp_f = e\<rparr>]\<rparr>)"
    by (cases h) (simp add: rescale_h_def heap_prims Let_def list_update_append)
  with assms obtain a b c where "r = length (decs h)"
    and "h' = \<lparr>ints = ints h @ [a, b, c],
               decs = decs h @ [\<lparr>value_p = length (ints h), exp_f = e\<rparr>]\<rparr>"
    by auto
  then show "unchanged h h'" and "fresh_Decimal h h' r"
    by (simp_all add: unchanged_iff fresh_Decimal_def value_of_def)
qed

lemma New_h_frame:
  assumes "New_h v e h = (r, h')"
  shows "unchanged h h'" and "fresh_Decimal h h' r"
  using assms
  by (auto simp add: New_h_def heap_prims Let_def unchanged_iff fresh_Decimal_def)

lemma Abs_h_frame:
  assumes "Abs_h d h = (r, h')"
  shows "unchanged h h'" and "fresh_Decimal h h' r"
  using assms
  by (auto simp add: Abs_h_def heap_prims Let_def unchanged_iff fresh_Decimal_def)

lemma Add_h_frame:
  assumes "Add_h d d2 h = (r, h')"
  shows "unchanged h h'" and "fresh_Decimal h h' r"
proof -
  let ?b = "min_i32 (exp_of h d) (exp_of h d2)"
  obtain rd h1 where 1: "rescale_h d ?b h = (rd, h1)"
    by (cases "rescale_h d ?b h")
  obtain rd2 h2 where 2: "rescale_h d2 ?b h1 = (rd2, h2)"
    by (cases "rescale_h d2 ?b h1")
  have u: "unchanged h h2"
    using rescale_h_frame(1) [OF 1] rescale_h_frame(1) [OF 2] by (rule unchanged_trans)
  from assms have "\<exists>v. r = length (decs h2) \<and>
      h' = h2\<lparr>ints := ints h2 @ [v],
              decs := decs h2 @ [\<lparr>value_p = length (ints h2), exp_f = ?b\<rparr>]\<rparr>"
    by (auto simp add: Add_h_def Let_def 1 2 alloc_Int_def Int_set_def alloc_Decimal_def)
  then obtain v where r: "r = length (decs h2)"
    and h': "h' = h2\<lparr>ints := ints h2 @ [v],
              decs := decs h2 @ [\<lparr>value_p = length (ints h2), exp_f = ?b\<rparr>]\<rparr>"
    by blast
  show "unchanged h h'"
    unfolding h' using u by (rule unchanged_grow)
  show "fresh_Decimal h h' r"
    using unchanged_length [OF u] by (simp add: fresh_Decimal_def r h' value_of_def)
qed

lemma Sub_h_frame:
  assumes "Sub_h d d2 h = (r, h')"
  shows "unchanged h h'" and "fresh_Decimal h h' r"
proof -
  let ?b = "min_i32 (exp_of h d) (exp_of h d2)"
  obtain rd h1 where 1: "rescale_h d ?b h = (rd, h1)"
    by (cases "rescale_h d ?b h")
  obtain rd2 h2 where 2: "rescale_h d2 ?b h1 = (rd2, h2)"
    by (cases "rescale_h d2 ?b h1")
  have u: "unchanged h h2"
    using rescale_h_frame(1) [OF 1] rescale_h_frame(1) [OF 2] by (rule unchanged_trans)
  from assms have "\<exists>v. r = length (decs h2) \<and>
      h' = h2\<lparr>ints := ints h2 @ [v],
              decs := decs h2 @ [\<lparr>value_p = length (ints h2), exp_f = ?b\<rparr>]\<rparr>"
    by (auto simp add: Sub_h_def Let_def 1 2 alloc_Int_def Int_set_def alloc_Decimal_def)
  then obtain v where r: "r = length (decs h2)"
    and h': "h' = h2\<lparr>ints := ints h2 @ [v],
              decs := decs h2 @ [\<lparr>value_p = length (ints h2), exp_f = ?b\<rparr>]\<rparr>"
    by blast
  show "unchanged h h'"
    unfolding h' using u by (rule unchanged_grow)
  show "fresh_Decimal h h' r"
    using unchanged_length [OF u] by (simp add: fresh_Decimal_def r h' value_of_def)
qed

lemma Mul_h_frame:
  assumes "Mul_h d d2 h = Inr (r, h')"
  shows "unchanged h h'" and "fresh_Decimal h h' r"
  using assms
  by (auto simp add: Mul_h_def Let_def alloc_Int_def Int_set_def alloc_Decimal_def
      unchanged_iff fresh_Decimal_def value_of_def split: if_splits)

lemma Cmp_h_frame:
  assumes "Cmp_h d d2 h = (c, h')"
  shows "unchanged h h'"
proof (cases "exp_of h d = exp_of h d2")
  case True
  with assms have "h' = h" by (simp add: Cmp_h_def)
  then show ?thesis by (simp add: unchanged_refl)
next
  case False
  let ?b = "min_i32 (exp_of h d) (exp_of h d2)"
  obtain rd h1 where 1: "rescale_h d ?b h = (rd, h1)"
    by (cases "rescale_h d ?b h")
  obtain rd2 h2 where 2: "rescale_h d2 ?b h1 = (rd2, h2)"
    by (cases "rescale_h d2 ?b h1")
  from assms False have "h' = h2"
    by (simp add: Cmp_h_def Let_def 1 2)
  then show ?thesis
    using rescale_h_frame(1) [OF 1] rescale_h_frame(1) [OF 2] by (simp add: unchanged_trans)
qed

lemma Round_h_shape:
  "\<exists>a b c m. Round_h d p h =
     (length (decs h), \<lparr>ints = ints h @ [a, b, c, m],
                        decs = decs h @ [\<lparr>value_p = length (ints h), exp_f = - p - 1 + 1\<rparr>]\<rparr>)"
proof -
  have "\<exists>a b c. rescale_h d (- p - 1) h =
     (length (decs h), \<lparr>ints = ints h @ [a, b, c],
                        decs = decs h @ [\<lparr>value_p = length (ints h), exp_f = - p - 1\<rparr>]\<rparr>)"
    by (cases h) (simp add: rescale_h_def heap_prims Let_def list_update_append)
  then obtain a b c where r: "rescale_h d (- p - 1) h =
     (length (decs h), \<lparr>ints = ints h @ [a, b, c],
                        decs = decs h @ [\<lparr>value_p = length (ints h), exp_f = - p - 1\<rparr>]\<rparr>)"
    by blast
  show ?thesis
    unfolding Round_h_def r
    by (simp add: heap_prims Let_def list_update_append split: prod.split)
qed

lemma Round_h_frame:
  assumes "Round_h d p h = (r, h')"
  shows "unchanged h h'" and "fresh_Decimal h h' r" and "value_of h' r = length (ints h)"
proof -
  from Round_h_shape [of d p h] assms obtain a b c m where "r = length (decs h)"
    and "h' = \<lparr>ints = ints h @ [a, b, c, m],
               decs = decs h @ [\<lparr>value_p = length (ints h), exp_f = - p - 1 + 1\<rparr>]\<rparr>"
    by auto
  then show "unchanged h h'" and "fresh_Decimal h h' r" and "value_of h' r = length (ints h)"
    by (simp_all add: unchanged_iff fresh_Decimal_def value_of_def)
qed

lemma RoundBank_h_frame:
  assumes "RoundBank_h d p h = (r, h')"
  shows "unchanged h h'" and "fresh_Decimal h h' r"
proof -
  obtain round h1 where 1: "Round_h d p h = (round, h1)"
    by (cases "Round_h d p h")
  obtain diff h2 where 2: "Sub_h d round h1 = (diff, h2)"
    by (cases "Sub_h d round h1")
  obtain remainder h3 where 3: "Abs_h diff h2 = (remainder, h3)"
    by (cases "Abs_h diff h2")
  obtain half h4 where 4: "New_h 5 (- p - 1) h3 = (half, h4)"
    by (cases "New_h 5 (- p - 1) h3")
  obtain c h5 where 5: "Cmp_h remainder half h4 = (c, h5)"
    by (cases "Cmp_h remainder half h4")
  note f1 = Round_h_frame [OF 1]
  have u15: "unchanged h1 h5"
    using Sub_h_frame(1) [OF 2] Abs_h_frame(1) [OF 3] New_h_frame(1) [OF 4] Cmp_h_frame [OF 5]
    by (blast intro: unchanged_trans)
  have u: "unchanged h h5"
    using f1(1) u15 by (rule unchanged_trans)
  from f1(2) have rl: "round < length (decs h1)" "length (decs h) \<le> round"
    by (simp_all add: fresh_Decimal_def)
  have v: "value_of h5 round = length (ints h)"
    using unchanged_nth(2) [OF u15 rl(1)] f1(3) by (simp add: value_of_def)
  have l: "length (ints h) < length (ints h5)"
    using f1(2) f1(3) unchanged_length(1) [OF u15] by (simp add: fresh_Decimal_def)
  have dl: "round < length (decs h5)"
    using rl(1) unchanged_length(2) [OF u15] by simp
  from assms have r: "r = round"
    and "h' = h5 \<or> (\<exists>x. h' = Int_set (value_of h5 round) x h5)"
    by (auto simp add: RoundBank_h_def Let_def 1 2 3 4 5 split: if_splits)
  then consider "h' = h5" | x where "h' = Int_set (length (ints h)) x h5"
    unfolding v by blast
  then have "unchanged h h' \<and> fresh_Decimal h h' r"
  proof cases
    case 1
    have "unchanged h h'" unfolding 1 by (rule u)
    moreover have "fresh_Decimal h h' r"
      unfolding 1 r using rl dl v l by (simp add: fresh_Decimal_def)
    ultimately show ?thesis by simp
  next
    case 2
    have "unchanged h h'" unfolding 2 using u by (rule unchanged_Int_set) simp
    moreover have "fresh_Decimal h h' r"
      unfolding 2 r using rl dl v l by (simp add: fresh_Decimal_def Int_set_def value_of_def)
    ultimately show ?thesis by simp
  qed
  then show "unchanged h h'" and "fresh_Decimal h h' r"
    by simp_all
qed

lemma string_h_frame:
  assumes "string_h obj t h = (s, h')"
  shows "unchanged h h'"
proof -
  let ?h0 = "h\<lparr>decs := decs h @ [obj]\<rparr>"
  let ?d = "length (decs h)"
  have u0: "unchanged h ?h0" by (simp add: unchanged_iff)
  show ?thesis
  proof (cases "0 \<le> sint (exp_of ?h0 ?d)")
    case True
    obtain r h1 where 1: "rescale_h ?d 0 ?h0 = (r, h1)"
      by (cases "rescale_h ?d 0 ?h0")
    from assms True have "h' = h1"
      by (simp add: string_h_def alloc_Decimal_def Let_def 1)
    then show ?thesis
      using u0 rescale_h_frame(1) [OF 1] by (simp add: unchanged_trans)
  next
    case False
    with assms have "\<exists>v. h' = ?h0\<lparr>ints := ints ?h0 @ [v]\<rparr>"
      by (auto simp add: string_h_def alloc_Decimal_def alloc_Int_def Int_set_def Let_def
          split: prod.splits)
    then show ?thesis
      by (auto simp add: unchanged_iff)
  qed
qed

lemma StringFixedBank_h_frame:
  assumes "StringFixedBank_h d p h = (s, h')"
  shows "unchanged h h'"
proof -
  obtain rounded h1 where 1: "RoundBank_h d p h = (rounded, h1)"
    by (cases "RoundBank_h d p h")
  from assms have "string_h (decs h1 ! rounded) False h1 = (s, h')"
    by (simp add: StringFixedBank_h_def Let_def 1)
  then show ?thesis
    using RoundBank_h_frame(1) [OF 1] string_h_frame by (blast intro: unchanged_trans)
qed

subsection \<open>Agreement with the value-level functions\<close>

lemmas global_addrs = zeroInt_p_def oneInt_p_def fiveInt_p_def tenInt_p_def

lemma dec_of_unchanged:
  assumes "unchanged h h'" and "wf_Decimal h d"
  shows "dec_of h' d = dec_of h d" and "value_of h' d = value_of h d" and "wf_Decimal h' d"
proof -
  from assms(2) have d: "d < length (decs h)" and p: "value_p (decs h ! d) < length (ints h)"
    by (simp_all add: wf_Decimal_def value_of_def)
  have 1: "decs h' ! d = decs h ! d"
    by (rule unchanged_nth(2) [OF assms(1) d])
  have 2: "ints h' ! value_p (decs h ! d) = ints h ! value_p (decs h ! d)"
    by (rule unchanged_nth(1) [OF assms(1) p])
  show "dec_of h' d = dec_of h d"
    by (simp add: dec_of_def Int_val_def value_of_def exp_of_def 1 2)
  show "value_of h' d = value_of h d"
    by (simp add: value_of_def 1)
  show "wf_Decimal h' d"
    using d p unchanged_length [OF assms(1)] by (simp add: wf_Decimal_def value_of_def 1)
qed

lemma globals_ok_unchanged:
  assumes "unchanged h h'" and "globals_ok h"
  shows "globals_ok h'"
proof -
  from assms(2) have 4: "4 \<le> length (ints h)"
    by (simp add: globals_ok_def)
  have "ints h' ! p = ints h ! p" if "p < 4" for p
    by (rule unchanged_nth(1) [OF assms(1)]) (use 4 that in linarith)
  then have "ints h' ! 0 = ints h ! 0" "ints h' ! 1 = ints h ! 1" "ints h' ! 2 = ints h ! 2"
    "ints h' ! 3 = ints h ! 3"
    by simp_all
  then show ?thesis
    using assms(2) unchanged_length(1) [OF assms(1)]
    by (simp add: globals_ok_def Int_val_def global_addrs)
qed

lemma dec_of_fields:
  "value_d (dec_of h d) = Int_val h (value_of h d)" "exp_d (dec_of h d) = exp_of h d"
  by (simp_all add: dec_of_def)

lemma fresh_Decimal_wf: "fresh_Decimal h h' r \<Longrightarrow> wf_Decimal h' r"
  by (simp add: fresh_Decimal_def wf_Decimal_def)

lemma rescale_h_value_shape:
  assumes "wf_Decimal h d" and "globals_ok h"
  shows "\<exists>b c. rescale_h d e h =
     (length (decs h), \<lparr>ints = ints h @ [value_d (rescale (dec_of h d) e), b, c],
                        decs = decs h @ [\<lparr>value_p = length (ints h), exp_f = e\<rparr>]\<rparr>)"
  using assms
  by (cases h)
    (simp add: rescale_h_def rescale_def heap_prims Int_val_def dec_of_def wf_Decimal_def
      globals_ok_def global_addrs Let_def list_update_append nth_append)

lemma rescale_h_refines:
  assumes "wf_Decimal h d" and "globals_ok h" and "rescale_h d e h = (r, h')"
  shows "dec_of h' r = rescale (dec_of h d) e"
proof -
  from rescale_h_value_shape [OF assms(1,2), of e] assms(3)
  obtain b c where "r = length (decs h)"
    and "h' = \<lparr>ints = ints h @ [value_d (rescale (dec_of h d) e), b, c],
               decs = decs h @ [\<lparr>value_p = length (ints h), exp_f = e\<rparr>]\<rparr>"
    by auto
  then show ?thesis
    by (simp add: dec_of_def Int_val_def value_of_def exp_of_def rescale_eq)
qed

lemma Int_val_grow:
  "p < length (ints h) \<Longrightarrow> Int_val (h\<lparr>ints := ints h @ xs\<rparr>) p = Int_val h p"
  by (simp add: Int_val_def nth_append)

lemma New_h_refines:
  assumes "New_h v e h = (r, h')"
  shows "dec_of h' r = New v e"
  using assms
  by (auto simp add: New_h_def New_def heap_prims Let_def dec_of_def Int_val_def)

lemma Abs_h_refines:
  assumes "wf_Decimal h d" and "Abs_h d h = (r, h')"
  shows "dec_of h' r = Abs (dec_of h d)"
  using assms
  by (auto simp add: Abs_h_def Abs_def heap_prims Let_def dec_of_def Int_val_def wf_Decimal_def
      nth_append)

lemma rescale_twice:
  assumes "wf_Decimal h d" and "wf_Decimal h d2" and "globals_ok h"
    and 1: "rescale_h d b h = (rd, h1)" and 2: "rescale_h d2 b h1 = (rd2, h2)"
  shows "Int_val h2 (value_of h2 rd) = value_d (rescale (dec_of h d) b)"
    and "Int_val h2 (value_of h2 rd2) = value_d (rescale (dec_of h d2) b)"
    and "value_of h2 rd < length (ints h2)" and "value_of h2 rd2 < length (ints h2)"
proof -
  note f1 = rescale_h_frame [OF 1] and f2 = rescale_h_frame [OF 2]
  have w1: "wf_Decimal h1 rd" by (rule fresh_Decimal_wf [OF f1(2)])
  have w2: "wf_Decimal h2 rd2" by (rule fresh_Decimal_wf [OF f2(2)])
  have "dec_of h2 rd = dec_of h1 rd"
    by (rule dec_of_unchanged(1) [OF f2(1) w1])
  also have "\<dots> = rescale (dec_of h d) b"
    by (rule rescale_h_refines [OF assms(1,3) 1])
  finally have "value_d (dec_of h2 rd) = value_d (rescale (dec_of h d) b)"
    by simp
  then show "Int_val h2 (value_of h2 rd) = value_d (rescale (dec_of h d) b)"
    by (simp only: dec_of_fields)
  have "dec_of h2 rd2 = rescale (dec_of h1 d2) b"
    by (rule rescale_h_refines [OF dec_of_unchanged(3) [OF f1(1) assms(2)]
        globals_ok_unchanged [OF f1(1) assms(3)] 2])
  also have "dec_of h1 d2 = dec_of h d2"
    by (rule dec_of_unchanged(1) [OF f1(1) assms(2)])
  finally have "value_d (dec_of h2 rd2) = value_d (rescale (dec_of h d2) b)"
    by simp
  then show "Int_val h2 (value_of h2 rd2) = value_d (rescale (dec_of h d2) b)"
    by (simp only: dec_of_fields)
  show "value_of h2 rd < length (ints h2)"
    using dec_of_unchanged(3) [OF f2(1) w1] by (simp add: wf_Decimal_def)
  show "value_of h2 rd2 < length (ints h2)"
    using w2 by (simp add: wf_Decimal_def)
qed

lemma Add_h_refines:
  assumes "wf_Decimal h d" and "wf_Decimal h d2" and "globals_ok h"
    and "Add_h d d2 h = (r, h')"
  shows "dec_of h' r = Add (dec_of h d) (dec_of h d2)"
proof -
  let ?b = "min_i32 (exp_of h d) (exp_of h d2)"
  obtain rd h1 where 1: "rescale_h d ?b h = (rd, h1)"
    by (cases "rescale_h d ?b h")
  obtain rd2 h2 where 2: "rescale_h d2 ?b h1 = (rd2, h2)"
    by (cases "rescale_h d2 ?b h1")
  note t = rescale_twice [OF assms(1-3) 1 2]
  have v: "value_of (h2\<lparr>ints := X\<rparr>) x = value_of h2 x" for X x
    by (simp add: value_of_def)
  from assms(4) have "dec_of h' r =
      \<lparr>value_d = Int_val h2 (value_of h2 rd) + Int_val h2 (value_of h2 rd2), exp_d = ?b\<rparr>"
    using t(3,4)
    by (auto simp add: Add_h_def Let_def 1 2 alloc_Int_def Int_set_def alloc_Decimal_def
        dec_of_def v Int_val_grow)
      (simp_all add: Int_val_def value_of_def exp_of_def)
  then show ?thesis
    unfolding t(1,2) by (simp add: Add_def Let_def dec_of_def)
qed

lemma Sub_h_refines:
  assumes "wf_Decimal h d" and "wf_Decimal h d2" and "globals_ok h"
    and "Sub_h d d2 h = (r, h')"
  shows "dec_of h' r = Sub (dec_of h d) (dec_of h d2)"
proof -
  let ?b = "min_i32 (exp_of h d) (exp_of h d2)"
  obtain rd h1 where 1: "rescale_h d ?b h = (rd, h1)"
    by (cases "rescale_h d ?b h")
  obtain rd2 h2 where 2: "rescale_h d2 ?b h1 = (rd2, h2)"
    by (cases "rescale_h d2 ?b h1")
  note t = rescale_twice [OF assms(1-3) 1 2]
  have v: "value_of (h2\<lparr>ints := X\<rparr>) x = value_of h2 x" for X x
    by (simp add: value_of_def)
  from assms(4) have "dec_of h' r =
      \<lparr>value_d = Int_val h2 (value_of h2 rd) - Int_val h2 (value_of h2 rd2), exp_d = ?b\<rparr>"
    using t(3,4)
    by (auto simp add: Sub_h_def Let_def 1 2 alloc_Int_def Int_set_def alloc_Decimal_def
        dec_of_def v Int_val_grow)
      (simp_all add: Int_val_def value_of_def exp_of_def)
  then show ?thesis
    unfolding t(1,2) by (simp add: Sub_def Let_def dec_of_def)
qed

lemma Cmp_h_refines:
  assumes "wf_Decimal h d" and "wf_Decimal h d2" and "globals_ok h"
    and "Cmp_h d d2 h = (c, h')"
  shows "c = Cmp (dec_of h d) (dec_of h d2)"
proof (cases "exp_of h d = exp_of h d2")
  case True
  with assms(4) show ?thesis
    by (auto simp add: Cmp_h_def Cmp_def dec_of_def)
next
  case False
  let ?b = "min_i32 (exp_of h d) (exp_of h d2)"
  obtain rd h1 where 1: "rescale_h d ?b h = (rd, h1)"
    by (cases "rescale_h d ?b h")
  obtain rd2 h2 where 2: "rescale_h d2 ?b h1 = (rd2, h2)"
    by (cases "rescale_h d2 ?b h1")
  note t = rescale_twice [OF assms(1-3) 1 2]
  from assms(4) False
  have "c = big_Cmp (Int_val h2 (value_of h2 rd)) (Int_val h2 (value_of h2 rd2))"
    by (auto simp add: Cmp_h_def Let_def 1 2)
  then show ?thesis
    unfolding t(1,2) using False by (simp add: Cmp_def Let_def dec_of_def)
qed

lemma Mul_h_refines:
  assumes "wf_Decimal h d" and "wf_Decimal h d2"
  shows "case Mul_h d d2 h of
           Inl e \<Rightarrow> Mul (dec_of h d) (dec_of h d2) = Inl e
         | Inr (r, h') \<Rightarrow> Mul (dec_of h d) (dec_of h d2) = Inr (dec_of h' r)"
  using assms
  by (auto simp add: Mul_h_def Mul_def Let_def alloc_Int_def Int_set_def alloc_Decimal_def
      dec_of_def Int_val_def value_of_def exp_of_def wf_Decimal_def nth_append)

lemma exp_d_rescale: "exp_d (rescale d e) = e"
  by (simp add: rescale_eq)

lemma Round_h_refines:
  assumes "wf_Decimal h d" and "globals_ok h" and "Round_h d p h = (r, h')"
  shows "dec_of h' r = Round (dec_of h d) p"
proof -
  obtain b c where s: "rescale_h d (- p - 1) h =
     (length (decs h), \<lparr>ints = ints h @ [value_d (rescale (dec_of h d) (- p - 1)), b, c],
                        decs = decs h @ [\<lparr>value_p = length (ints h), exp_f = - p - 1\<rparr>]\<rparr>)"
    using rescale_h_value_shape [OF assms(1,2)] by blast
  define A where "A = value_d (rescale (dec_of h d) (- p - 1))"
  have g: "2 < length (ints h)" "3 < length (ints h)" "0 < length (ints h)" "1 < length (ints h)"
    "ints h ! 0 = 0" "ints h ! 1 = 1" "ints h ! 2 = 5" "ints h ! 3 = 10"
    using assms(2)
    by (auto simp add: globals_ok_def Int_val_def global_addrs zeroInt_def oneInt_def fiveInt_def
        tenInt_def)
  have R: "Round (dec_of h d) p =
      (let x = (if big_Sign A < 0 then A - 5 else A + 5);
           q = fst (big_DivMod x 10); m = snd (big_DivMod x 10)
       in \<lparr>value_d = (if big_Sign q < 0 \<and> big_Cmp m 0 \<noteq> 0 then q + 1 else q), exp_d = - p - 1 + 1\<rparr>)"
    unfolding Round_def A_def
    using exp_d_rescale [of "dec_of h d" "- p - 1"]
    by (cases "rescale (dec_of h d) (- p - 1)")
      (auto simp add: Let_def fiveInt_def tenInt_def oneInt_def zeroInt_def
        split: prod.splits)
  from assms(3) have "dec_of h' r =
      (let x = (if big_Sign A < 0 then A - 5 else A + 5);
           q = fst (big_DivMod x 10); m = snd (big_DivMod x 10)
       in \<lparr>value_d = (if big_Sign q < 0 \<and> big_Cmp m 0 \<noteq> 0 then q + 1 else q), exp_d = - p - 1 + 1\<rparr>)"
    unfolding Round_h_def s A_def [symmetric]
    using g
    by (auto simp add: heap_prims Int_val_def dec_of_def global_addrs Let_def list_update_append
        nth_append split: prod.splits)
  with R show ?thesis by simp
qed

lemma dec_of_Int_set:
  assumes "wf_Decimal h d"
  shows "dec_of (Int_set (value_of h d) v h) d = (dec_of h d)\<lparr>value_d := v\<rparr>"
  using assms
  by (simp add: dec_of_def Int_set_def Int_val_def value_of_def exp_of_def wf_Decimal_def)

lemma RoundBank_h_refines:
  assumes "wf_Decimal h d" and "globals_ok h" and "RoundBank_h d p h = (r, h')"
  shows "dec_of h' r = RoundBank (dec_of h d) p"
proof -
  obtain round h1 where 1: "Round_h d p h = (round, h1)"
    by (cases "Round_h d p h")
  obtain diff h2 where 2: "Sub_h d round h1 = (diff, h2)"
    by (cases "Sub_h d round h1")
  obtain remainder h3 where 3: "Abs_h diff h2 = (remainder, h3)"
    by (cases "Abs_h diff h2")
  obtain half h4 where 4: "New_h 5 (- p - 1) h3 = (half, h4)"
    by (cases "New_h 5 (- p - 1) h3")
  obtain c h5 where 5: "Cmp_h remainder half h4 = (c, h5)"
    by (cases "Cmp_h remainder half h4")
  note f1 = Round_h_frame [OF 1] and f2 = Sub_h_frame [OF 2] and f3 = Abs_h_frame [OF 3]
    and f4 = New_h_frame [OF 4] and f5 = Cmp_h_frame [OF 5]
  let ?D = "dec_of h d"
  let ?R = "Round ?D p"
  have w1: "wf_Decimal h1 round" by (rule fresh_Decimal_wf [OF f1(2)])
  have wd1: "wf_Decimal h1 d" by (rule dec_of_unchanged(3) [OF f1(1) assms(1)])
  have g1: "globals_ok h1" by (rule globals_ok_unchanged [OF f1(1) assms(2)])
  have r1: "dec_of h1 round = ?R" by (rule Round_h_refines [OF assms(1,2) 1])
  have d1: "dec_of h1 d = ?D" by (rule dec_of_unchanged(1) [OF f1(1) assms(1)])
  have r2: "dec_of h2 diff = Sub ?D ?R"
    using Sub_h_refines [OF wd1 w1 g1 2] by (simp only: r1 d1)
  have w2: "wf_Decimal h2 diff" by (rule fresh_Decimal_wf [OF f2(2)])
  have g2: "globals_ok h2" by (rule globals_ok_unchanged [OF f2(1) g1])
  have r3: "dec_of h3 remainder = Abs (Sub ?D ?R)"
    using Abs_h_refines [OF w2 3] by (simp only: r2)
  have w3: "wf_Decimal h3 remainder" by (rule fresh_Decimal_wf [OF f3(2)])
  have g3: "globals_ok h3" by (rule globals_ok_unchanged [OF f3(1) g2])
  have r4: "dec_of h4 half = New 5 (- p - 1)" by (rule New_h_refines [OF 4])
  have w4: "wf_Decimal h4 half" by (rule fresh_Decimal_wf [OF f4(2)])
  have w34: "wf_Decimal h4 remainder" by (rule dec_of_unchanged(3) [OF f4(1) w3])
  have r34: "dec_of h4 remainder = Abs (Sub ?D ?R)"
    using dec_of_unchanged(1) [OF f4(1) w3] by (simp only: r3)
  have g4: "globals_ok h4" by (rule globals_ok_unchanged [OF f4(1) g3])
  have c: "c = Cmp (Abs (Sub ?D ?R)) (New 5 (- p - 1))"
    using Cmp_h_refines [OF w34 w4 g4 5] by (simp only: r34 r4)
  have u15: "unchanged h1 h5"
    using f2(1) f3(1) f4(1) f5 by (blast intro: unchanged_trans)
  have w5: "wf_Decimal h5 round" by (rule dec_of_unchanged(3) [OF u15 w1])
  have r5: "dec_of h5 round = ?R"
    using dec_of_unchanged(1) [OF u15 w1] by (simp only: r1)
  then have v5: "Int_val h5 (value_of h5 round) = value_d ?R"
    by (simp only: dec_of_fields [symmetric])
  have g5: "globals_ok h5" by (rule globals_ok_unchanged [OF u15 g1])
  then have o5: "Int_val h5 oneInt_p = oneInt" by (simp add: globals_ok_def)
  have "RoundBank_h d p h =
      (round, if c = 0 \<and> big_Bit0 (value_d ?R) \<noteq> 0
              then (if big_Sign (value_d ?R) < 0
                    then Int_set (value_of h5 round) (value_d ?R + oneInt) h5
                    else Int_set (value_of h5 round) (value_d ?R - oneInt) h5)
              else h5)"
    by (simp add: RoundBank_h_def Let_def 1 2 3 4 5 v5 o5)
  with assms(3) have r: "r = round"
    and h': "h' = (if c = 0 \<and> big_Bit0 (value_d ?R) \<noteq> 0
                   then (if big_Sign (value_d ?R) < 0
                         then Int_set (value_of h5 round) (value_d ?R + oneInt) h5
                         else Int_set (value_of h5 round) (value_d ?R - oneInt) h5)
                   else h5)"
    by simp_all
  show ?thesis
    unfolding r h' RoundBank_def Let_def c [symmetric]
    by (simp add: dec_of_Int_set [OF w5] r5)
qed

lemma string_h_refines:
  assumes "wf_Decimal h d" and "globals_ok h" and "string_h (decs h ! d) t h = (s, h')"
  shows "s = string_dec (dec_of h d) t"
proof (cases "0 \<le> sint (exp_f (decs h ! d))")
  case True
  let ?h0 = "h\<lparr>decs := decs h @ [decs h ! d]\<rparr>"
  let ?c = "length (decs h)"
  have u0: "unchanged h ?h0" by (simp add: unchanged_iff)
  have g0: "globals_ok ?h0" by (rule globals_ok_unchanged [OF u0 assms(2)])
  have w0: "wf_Decimal ?h0 ?c"
    using assms(1) by (simp add: wf_Decimal_def value_of_def)
  have c0: "dec_of ?h0 ?c = dec_of h d"
    by (simp add: dec_of_def Int_val_def value_of_def exp_of_def)
  obtain r h1 where 1: "rescale_h ?c 0 ?h0 = (r, h1)"
    by (cases "rescale_h ?c 0 ?h0")
  have "dec_of h1 r = rescale (dec_of h d) 0"
    using rescale_h_refines [OF w0 g0 1] by (simp only: c0)
  then have "Int_val h1 (value_of h1 r) = value_d (rescale (dec_of h d) 0)"
    by (simp only: dec_of_fields [symmetric])
  moreover from assms(3) True have "s = big_String (Int_val h1 (value_of h1 r))"
    by (auto simp add: string_h_def alloc_Decimal_def Let_def 1 exp_of_def)
  moreover from True have "string_dec (dec_of h d) t = big_String (value_d (rescale (dec_of h d) 0))"
    by (simp add: string_dec_def dec_of_def exp_of_def)
  ultimately show ?thesis by simp
next
  case False
  from assms(1) have v: "value_p (decs h ! d) < length (ints h)"
    by (simp add: wf_Decimal_def value_of_def)
  have "fst (string_h (decs h ! d) t h) = string_dec (dec_of h d) t"
    using False v
    by (simp add: string_h_def string_dec_def dec_of_def alloc_Decimal_def alloc_Int_def
        Int_set_def Int_val_def value_of_def exp_of_def Let_def nth_append case_prod_beta
        split del: if_split cong: if_cong)
  with assms(3) show ?thesis by simp
qed

lemma StringFixedBank_h_refines:
  assumes "wf_Decimal h d" and "globals_ok h" and "StringFixedBank_h d p h = (s, h')"
  shows "s = StringFixedBank (dec_of h d) p"
proof -
  obtain rounded h1 where 1: "RoundBank_h d p h = (rounded, h1)"
    by (cases "RoundBank_h d p h")
  note f = RoundBank_h_frame [OF 1]
  from assms(3) have "string_h (decs h1 ! rounded) False h1 = (s, h')"
    by (simp add: StringFixedBank_h_def Let_def 1)
  then have "s = string_dec (dec_of h1 rounded) False"
    by (rule string_h_refines [OF fresh_Decimal_wf [OF f(2)] globals_ok_unchanged [OF f(1) assms(2)]])
  then show ?thesis
    by (simp add: StringFixedBank_def Let_def RoundBank_h_refines [OF assms(1,2) 1])
qed

lemma call_frameI:
  assumes "unchanged h h'" and "wf_Decimal h d" and "wf_Decimal h d2"
  shows "call_frame h d d2 h'"
  using dec_of_unchanged [OF assms(1,2)] dec_of_unchanged [OF assms(1,3)] assms(1)
  by (simp add: call_frame_def)

lemma result_freshI:
  assumes "unchanged h h'" and "fresh_Decimal h h' r" and "wf_Decimal h d" and "wf_Decimal h d2"
  shows "result_fresh h d d2 h' r"
  using dec_of_unchanged(2) [OF assms(1,3)] dec_of_unchanged(2) [OF assms(1,4)] assms(2-4)
  by (auto simp add: result_fresh_def fresh_Decimal_def wf_Decimal_def)

lemma globals_ok_init_heap: "globals_ok init_heap"
  by (simp add: globals_ok_def init_heap_def Int_val_def global_addrs zeroInt_def oneInt_def
      fiveInt_def tenInt_def)

lemma example_heap_built:
  "New_h 1005 (- 2) init_heap = (0, h1) \<Longrightarrow> New_h 7 1 h1 = (1, example_heap)"
  by (auto simp add: New_h_def init_heap_def example_heap_def heap_prims Let_def big_NewInt_def)

text \<open>
  Claim C9. No operation changes an operand the caller can see: after a call of \<^verbatim>\<open>rescale\<close>,
  \<^verbatim>\<open>Add\<close>, \<^verbatim>\<open>Sub\<close>, \<^verbatim>\<open>Mul\<close>, \<^verbatim>\<open>Abs\<close>, \<^verbatim>\<open>Cmp\<close>, \<^verbatim>\<open>Round\<close>, \<^verbatim>\<open>RoundBank\<close> or
  \<^verbatim>\<open>StringFixedBank\<close> on well-formed operands, every \<^verbatim>\<open>big.Int\<close> and every \<^verbatim>\<open>Decimal\<close> that
  existed before the call holds what it held (so each operand has its coefficient and
  its exponent), and a returned Decimal is a struct allocated during the call whose
  coefficient is a \<^verbatim>\<open>big.Int\<close> allocated during the call, not that of an operand: the
  in-place updates of \<^verbatim>\<open>rescale\<close>, \<^verbatim>\<open>Round\<close> and \<^verbatim>\<open>RoundBank\<close> only reach objects of the call's
  own. (A call of \<^verbatim>\<open>Mul\<close> that panics returns nothing.)
\<close>

theorem operations_leave_operands_unchanged:
  assumes "wf_Decimal h d" and "wf_Decimal h d2"
  shows "(case rescale_h d e h of (r, h') \<Rightarrow> call_frame h d d h' \<and> result_fresh h d d h' r)
       \<and> (case Add_h d d2 h of (r, h') \<Rightarrow> call_frame h d d2 h' \<and> result_fresh h d d2 h' r)
       \<and> (case Sub_h d d2 h of (r, h') \<Rightarrow> call_frame h d d2 h' \<and> result_fresh h d d2 h' r)
       \<and> (case Mul_h d d2 h of Inl err \<Rightarrow> True
            | Inr (r, h') \<Rightarrow> call_frame h d d2 h' \<and> result_fresh h d d2 h' r)
       \<and> (case Abs_h d h of (r, h') \<Rightarrow> call_frame h d d h' \<and> result_fresh h d d h' r)
       \<and> (case Cmp_h d d2 h of (c, h') \<Rightarrow> call_frame h d d2 h')
       \<and> (case Round_h d p h of (r, h') \<Rightarrow> call_frame h d d h' \<and> result_fresh h d d h' r)
       \<and> (case RoundBank_h d p h of (r, h') \<Rightarrow> call_frame h d d h' \<and> result_fresh h d d h' r)
       \<and> (case StringFixedBank_h d p h of (s, h') \<Rightarrow> call_frame h d d h')"
proof -
  note a = assms(1) and b = assms(2)
  have 1: "case rescale_h d e h of (r, h') \<Rightarrow> call_frame h d d h' \<and> result_fresh h d d h' r"
  proof (cases "rescale_h d e h")
    case (Pair r h')
    show ?thesis
      unfolding Pair prod.case
      using call_frameI [OF rescale_h_frame(1) [OF Pair] a a]
        result_freshI [OF rescale_h_frame [OF Pair] a a] ..
  qed
  have 2: "case Add_h d d2 h of (r, h') \<Rightarrow> call_frame h d d2 h' \<and> result_fresh h d d2 h' r"
  proof (cases "Add_h d d2 h")
    case (Pair r h')
    show ?thesis
      unfolding Pair prod.case
      using call_frameI [OF Add_h_frame(1) [OF Pair] a b]
        result_freshI [OF Add_h_frame [OF Pair] a b] ..
  qed
  have 3: "case Sub_h d d2 h of (r, h') \<Rightarrow> call_frame h d d2 h' \<and> result_fresh h d d2 h' r"
  proof (cases "Sub_h d d2 h")
    case (Pair r h')
    show ?thesis
      unfolding Pair prod.case
      using call_frameI [OF Sub_h_frame(1) [OF Pair] a b]
        result_freshI [OF Sub_h_frame [OF Pair] a b] ..
  qed
  have 4: "case Mul_h d d2 h of Inl err \<Rightarrow> True
            | Inr (r, h') \<Rightarrow> call_frame h d d2 h' \<and> result_fresh h d d2 h' r"
  proof (cases "Mul_h d d2 h")
    case (Inl err)
    then show ?thesis by simp
  next
    case (Inr x)
    obtain r h' where x: "x = (r, h')" by (cases x)
    show ?thesis
      unfolding Inr x sum.case prod.case
      using call_frameI [OF Mul_h_frame(1) [OF Inr [unfolded x]] a b]
        result_freshI [OF Mul_h_frame [OF Inr [unfolded x]] a b] ..
  qed
  have 5: "case Abs_h d h of (r, h') \<Rightarrow> call_frame h d d h' \<and> result_fresh h d d h' r"
  proof (cases "Abs_h d h")
    case (Pair r h')
    show ?thesis
      unfolding Pair prod.case
      using call_frameI [OF Abs_h_frame(1) [OF Pair] a a]
        result_freshI [OF Abs_h_frame [OF Pair] a a] ..
  qed
  have 6: "case Cmp_h d d2 h of (c, h') \<Rightarrow> call_frame h d d2 h'"
  proof (cases "Cmp_h d d2 h")
    case (Pair c h')
    show ?thesis
      unfolding Pair prod.case
      by (rule call_frameI [OF Cmp_h_frame [OF Pair] a b])
  qed
  have 7: "case Round_h d p h of (r, h') \<Rightarrow> call_frame h d d h' \<and> result_fresh h d d h' r"
  proof (cases "Round_h d p h")
    case (Pair r h')
    show ?thesis
      unfolding Pair prod.case
      using call_frameI [OF Round_h_frame(1) [OF Pair] a a]
        result_freshI [OF Round_h_frame(1,2) [OF Pair] a a] ..
  qed
  have 8: "case RoundBank_h d p h of (r, h') \<Rightarrow> call_frame h d d h' \<and> result_fresh h d d h' r"
  proof (cases "RoundBank_h d p h")
    case (Pair r h')
    show ?thesis
      unfolding Pair prod.case
      using call_frameI [OF RoundBank_h_frame(1) [OF Pair] a a]
        result_freshI [OF RoundBank_h_frame [OF Pair] a a] ..
  qed
  have 9: "case StringFixedBank_h d p h of (s, h') \<Rightarrow> call_frame h d d h'"
  proof (cases "StringFixedBank_h d p h")
    case (Pair s h')
    show ?thesis
      unfolding Pair prod.case
      by (rule call_frameI [OF StringFixedBank_h_frame [OF Pair] a a])
  qed
  from 1 2 3 4 5 6 7 8 9 show ?thesis by blast
qed

theorem operations_leave_operands_unchanged_witness:
  "wf_Decimal example_heap 0 \<and> wf_Decimal example_heap 1
   \<and> dec_of example_heap 0 = \<lparr>value_d = 1005, exp_d = - 2\<rparr>
   \<and> call_frame example_heap 0 0 (snd (RoundBank_h 0 1 example_heap))
   \<and> result_fresh example_heap 0 0 (snd (RoundBank_h 0 1 example_heap))
        (fst (RoundBank_h 0 1 example_heap))
   \<and> dec_of (snd (RoundBank_h 0 1 example_heap)) 0 = \<lparr>value_d = 1005, exp_d = - 2\<rparr>
   \<and> dec_of (snd (RoundBank_h 0 1 example_heap)) (fst (RoundBank_h 0 1 example_heap))
        = \<lparr>value_d = 100, exp_d = - 1\<rparr>
   \<and> call_frame example_heap 0 1 (snd (Add_h 0 1 example_heap))
   \<and> result_fresh example_heap 0 1 (snd (Add_h 0 1 example_heap)) (fst (Add_h 0 1 example_heap))"
proof -
  have w: "wf_Decimal example_heap 0" "wf_Decimal example_heap 1"
    by (simp_all add: wf_Decimal_def example_heap_def value_of_def)
  have g: "globals_ok example_heap"
    by (simp add: globals_ok_def example_heap_def Int_val_def global_addrs zeroInt_def oneInt_def
        fiveInt_def tenInt_def)
  have d: "dec_of example_heap 0 = \<lparr>value_d = 1005, exp_d = - 2\<rparr>"
    by (simp add: dec_of_def example_heap_def Int_val_def value_of_def exp_of_def)
  note t = operations_leave_operands_unchanged [OF w, of _ 1]
  from t have rb: "call_frame example_heap 0 0 (snd (RoundBank_h 0 1 example_heap))
      \<and> result_fresh example_heap 0 0 (snd (RoundBank_h 0 1 example_heap))
          (fst (RoundBank_h 0 1 example_heap))"
    by (simp add: case_prod_beta)
  from t have ad: "call_frame example_heap 0 1 (snd (Add_h 0 1 example_heap))
      \<and> result_fresh example_heap 0 1 (snd (Add_h 0 1 example_heap)) (fst (Add_h 0 1 example_heap))"
    by (simp add: case_prod_beta)
  from rb have k: "dec_of (snd (RoundBank_h 0 1 example_heap)) 0 = \<lparr>value_d = 1005, exp_d = - 2\<rparr>"
    by (simp add: call_frame_def d)
  have "dec_of (snd (RoundBank_h 0 1 example_heap)) (fst (RoundBank_h 0 1 example_heap))
      = RoundBank (dec_of example_heap 0) 1"
    by (rule RoundBank_h_refines [OF w(1) g]) simp
  also have "\<dots> = \<lparr>value_d = 100, exp_d = - 1\<rparr>"
    unfolding d using RoundBank_1005 by (simp add: New_def big_NewInt_def)
  finally show ?thesis
    using w d rb ad k by blast
qed

end
